theory Spec2Isabelle
  imports Complex_Main
begin

section \<open>Errors\<close>

text \<open>
  Every exception the handlers of \<^verbatim>\<open>main.py\<close> can see is a value: the ones raised
  by the standard library's calendar arithmetic, the one raised by
  \<^verbatim>\<open>require_internal_key\<close>, the failure of a database connection, and the
  rejection of a request by the web framework before the handler is called.
\<close>

datatype error =
    ValueError
  | OverflowError
  | TypeError
  | HTTPException nat string
  | KeyError
  | OperationalError
  | RequestValidationError

section \<open>Dates, times and zones as the standard library has them\<close>

record date =
  year :: int
  month :: int
  day :: int

datatype tzinfo = ZoneInfo string

text \<open>
  A \<^verbatim>\<open>datetime\<close> is a \<^verbatim>\<open>date\<close> with a time of day, an optional zone
  (\<open>None\<close> for a naive value) and the \<^verbatim>\<open>fold\<close> flag.
\<close>

record datetime = date +
  hour :: int
  minute :: int
  second :: int
  microsecond :: int
  tzinfo :: "tzinfo option"
  dt_fold :: int

record time =
  t_hour :: int
  t_minute :: int
  t_second :: int
  t_microsecond :: int
  t_fold :: int

definition PH_TZ :: tzinfo where
  "PH_TZ = ZoneInfo ''Asia/Manila''"

definition UTC :: tzinfo where
  "UTC = ZoneInfo ''UTC''"

definition MINYEAR :: int where "MINYEAR = 1"
definition MAXYEAR :: int where "MAXYEAR = 9999"
definition MAXORDINAL :: int where "MAXORDINAL = 3652059"

definition is_leap :: "int \<Rightarrow> bool" where
  "is_leap y \<longleftrightarrow> y mod 4 = 0 \<and> (y mod 100 \<noteq> 0 \<or> y mod 400 = 0)"

definition DAYS_IN_MONTH :: "int list" where
  "DAYS_IN_MONTH = [-1, 31, 28, 31, 30, 31, 30, 31, 31, 30, 31, 30, 31]"

definition DAYS_BEFORE_MONTH :: "int list" where
  "DAYS_BEFORE_MONTH = [-1, 0, 31, 59, 90, 120, 151, 181, 212, 243, 273, 304, 334]"

text \<open>Both tables are only read at an index from 1 to 12.\<close>

definition days_in_month :: "int \<Rightarrow> int \<Rightarrow> int" where
  "days_in_month y m = (if m = 2 \<and> is_leap y then 29 else DAYS_IN_MONTH ! nat m)"

definition days_before_year :: "int \<Rightarrow> int" where
  "days_before_year yr = (let y = yr - 1 in y * 365 + y div 4 - y div 100 + y div 400)"

definition days_before_month :: "int \<Rightarrow> int \<Rightarrow> int" where
  "days_before_month y m = DAYS_BEFORE_MONTH ! nat m + (if m > 2 \<and> is_leap y then 1 else 0)"

definition ymd2ord :: "int \<Rightarrow> int \<Rightarrow> int \<Rightarrow> int" where
  "ymd2ord y m d = days_before_year y + days_before_month y m + d"

definition check_date_fields :: "int \<Rightarrow> int \<Rightarrow> int \<Rightarrow> bool" where
  "check_date_fields y m d \<longleftrightarrow>
     MINYEAR \<le> y \<and> y \<le> MAXYEAR \<and> 1 \<le> m \<and> m \<le> 12 \<and> 1 \<le> d \<and> d \<le> days_in_month y m"

definition check_time_fields :: "int \<Rightarrow> int \<Rightarrow> int \<Rightarrow> int \<Rightarrow> int \<Rightarrow> bool" where
  "check_time_fields h mi s us f \<longleftrightarrow>
     0 \<le> h \<and> h \<le> 23 \<and> 0 \<le> mi \<and> mi \<le> 59 \<and> 0 \<le> s \<and> s \<le> 59 \<and>
     0 \<le> us \<and> us \<le> 999999 \<and> (f = 0 \<or> f = 1)"

text \<open>The class invariant of a \<^verbatim>\<open>date\<close> and of a \<^verbatim>\<open>datetime\<close> object.\<close>

definition valid_date :: "'a date_scheme \<Rightarrow> bool" where
  "valid_date d \<longleftrightarrow> check_date_fields (year d) (month d) (day d)"

definition valid_datetime :: "datetime \<Rightarrow> bool" where
  "valid_datetime dt \<longleftrightarrow>
     valid_date dt \<and> check_time_fields (hour dt) (minute dt) (second dt) (microsecond dt) (dt_fold dt)"

definition aware :: "datetime \<Rightarrow> bool" where
  "aware dt \<longleftrightarrow> tzinfo dt \<noteq> None"

text \<open>
  The constructors \<^verbatim>\<open>date(y, m, d)\<close>, \<^verbatim>\<open>datetime(y, m, d, h, mi, tzinfo=tz)\<close> and
  \<^verbatim>\<open>time(h, mi)\<close>: they raise \<^verbatim>\<open>ValueError\<close> on a field out of range; seconds,
  microseconds and fold default to zero.
\<close>

definition date_new :: "int \<Rightarrow> int \<Rightarrow> int \<Rightarrow> error + date" where
  "date_new y m d =
     (if check_date_fields y m d then Inr \<lparr>year = y, month = m, day = d\<rparr> else Inl ValueError)"

definition datetime_new :: "int \<Rightarrow> int \<Rightarrow> int \<Rightarrow> int \<Rightarrow> int \<Rightarrow> tzinfo option \<Rightarrow> error + datetime" where
  "datetime_new y m d h mi tz =
     (if check_date_fields y m d \<and> check_time_fields h mi 0 0 0
      then Inr \<lparr>year = y, month = m, day = d, hour = h, minute = mi, second = 0,
                microsecond = 0, tzinfo = tz, dt_fold = 0\<rparr>
      else Inl ValueError)"

definition time_new :: "int \<Rightarrow> int \<Rightarrow> error + time" where
  "time_new h mi =
     (if check_time_fields h mi 0 0 0
      then Inr \<lparr>t_hour = h, t_minute = mi, t_second = 0, t_microsecond = 0, t_fold = 0\<rparr>
      else Inl ValueError)"

text \<open>\<^verbatim>\<open>dt.date()\<close> and \<^verbatim>\<open>dt.time()\<close> (the latter drops the zone).\<close>

definition date_of :: "datetime \<Rightarrow> date" where
  "date_of dt = \<lparr>year = year dt, month = month dt, day = day dt\<rparr>"

definition time_of :: "datetime \<Rightarrow> time" where
  "time_of dt = \<lparr>t_hour = hour dt, t_minute = minute dt, t_second = second dt,
                 t_microsecond = microsecond dt, t_fold = dt_fold dt\<rparr>"

section \<open>The shift resolver\<close>

text \<open>\<^verbatim>\<open>shift_start_ph\<close>, lines 38 to 45 of \<^verbatim>\<open>main.py\<close>.\<close>

definition shift_start_ph :: "datetime \<Rightarrow> error + datetime" where
  "shift_start_ph dt =
     (let d = date_of dt; h = hour dt in
      if 8 \<le> h \<and> h < 16 then datetime_new (year d) (month d) (day d) 8 0 (Some PH_TZ)
      else if 16 \<le> h \<and> h < 24 then datetime_new (year d) (month d) (day d) 16 0 (Some PH_TZ)
      else datetime_new (year d) (month d) (day d) 0 0 (Some PH_TZ))"

section \<open>Comparisons and calendar arithmetic of the standard library\<close>

text \<open>
  Tuples of integers compare lexicographically; the result is \<open>-1\<close>, \<open>0\<close> or \<open>1\<close>
  as in the library's \<^verbatim>\<open>_cmp\<close>.
\<close>

fun tuple_cmp :: "int list \<Rightarrow> int list \<Rightarrow> int" where
  "tuple_cmp [] [] = 0"
| "tuple_cmp [] (y # ys) = - 1"
| "tuple_cmp (x # xs) [] = 1"
| "tuple_cmp (x # xs) (y # ys) = (if x = y then tuple_cmp xs ys else if x < y then - 1 else 1)"

text \<open>
  \<^verbatim>\<open>a < b\<close> on two naive \<^verbatim>\<open>time\<close> values compares
  \<^verbatim>\<open>(hour, minute, second, microsecond)\<close>; the fold is not looked at.
\<close>

definition time_lt :: "time \<Rightarrow> time \<Rightarrow> bool" where
  "time_lt a b \<longleftrightarrow>
     tuple_cmp [t_hour a, t_minute a, t_second a, t_microsecond a]
               [t_hour b, t_minute b, t_second b, t_microsecond b] < 0"

definition toordinal :: "'a date_scheme \<Rightarrow> int" where
  "toordinal d = ymd2ord (year d) (month d) (day d)"

definition DI400Y :: int where "DI400Y = 146097"
definition DI100Y :: int where "DI100Y = 36524"
definition DI4Y :: int where "DI4Y = 1461"

text \<open>
  \<^verbatim>\<open>_ord2ymd\<close>: the year, month and day of a proleptic Gregorian ordinal, with the
  library's successive \<^verbatim>\<open>divmod\<close>s and its month estimate \<^verbatim>\<open>(n + 50) >> 5\<close>.
\<close>

definition ord2ymd :: "int \<Rightarrow> int \<times> int \<times> int" where
  "ord2ymd n0 =
     (let n = n0 - 1;
          n400 = n div DI400Y; n = n mod DI400Y;
          yr = n400 * 400 + 1;
          n100 = n div DI100Y; n = n mod DI100Y;
          n4 = n div DI4Y; n = n mod DI4Y;
          n1 = n div 365; n = n mod 365;
          yr = yr + n100 * 100 + n4 * 4 + n1
      in if n1 = 4 \<or> n100 = 4 then (yr - 1, 12, 31)
         else
           let leapyear = (n1 = 3 \<and> (n4 \<noteq> 24 \<or> n100 = 3));
               mo = (n + 50) div 32;
               preceding = DAYS_BEFORE_MONTH ! nat mo + (if mo > 2 \<and> leapyear then 1 else 0)
           in if preceding > n
              then let mo' = mo - 1;
                       preceding' = preceding -
                         (DAYS_IN_MONTH ! nat mo' + (if mo' = 2 \<and> leapyear then 1 else 0))
                   in (yr, mo', n - preceding' + 1)
              else (yr, mo, n - preceding + 1))"

definition fromordinal :: "int \<Rightarrow> error + date" where
  "fromordinal n = (case ord2ymd n of (y, m, d) \<Rightarrow> date_new y m d)"

text \<open>
  \<^verbatim>\<open>date + timedelta(days=n)\<close> and \<^verbatim>\<open>date - timedelta(days=n)\<close>: the ordinal is
  moved and converted back; a result outside \<open>1 .. MAXORDINAL\<close> raises
  \<^verbatim>\<open>OverflowError\<close>.
\<close>

definition date_add_days :: "date \<Rightarrow> int \<Rightarrow> error + date" where
  "date_add_days d n =
     (let o' = toordinal d + n
      in if 0 < o' \<and> o' \<le> MAXORDINAL then fromordinal o' else Inl OverflowError)"

definition date_sub_days :: "date \<Rightarrow> int \<Rightarrow> error + date" where
  "date_sub_days d n = date_add_days d (- n)"

section \<open>The business-day resolver\<close>

text \<open>\<^verbatim>\<open>attendance_day_for\<close>, lines 47 to 50 of \<^verbatim>\<open>main.py\<close>.\<close>

definition attendance_day_for :: "datetime \<Rightarrow> error + date" where
  "attendance_day_for ph_dt =
     (case time_new 6 0 of
        Inl e \<Rightarrow> Inl e
      | Inr six \<Rightarrow>
          if time_lt (time_of ph_dt) six then date_sub_days (date_of ph_dt) 1
          else Inr (date_of ph_dt))"

section \<open>Ordering and difference of \<^verbatim>\<open>datetime\<close> values\<close>

text \<open>
  A \<^verbatim>\<open>timedelta\<close> is its length in microseconds. The UTC offset of a zone at a
  wall-clock reading comes from the zone database, which is not part of the program: it
  is the parameter \<open>off\<close> (in microseconds) of everything that consults it. At
  \<open>None\<close> it is the offset of the system's local zone, which the library takes for a
  naive value in \<^verbatim>\<open>astimezone\<close>; \<^verbatim>\<open>utcoffset()\<close> of a naive value is
  \<^verbatim>\<open>None\<close>.
\<close>

type_synonym timedelta = int
type_synonym tzdata = "tzinfo option \<Rightarrow> datetime \<Rightarrow> timedelta"

definition td_hours :: "int \<Rightarrow> timedelta" where
  "td_hours n = n * 3600000000"

definition utcoffset :: "tzdata \<Rightarrow> datetime \<Rightarrow> timedelta option" where
  "utcoffset off dt = (case tzinfo dt of None \<Rightarrow> None | Some z \<Rightarrow> Some (off (Some z) dt))"

text \<open>
  \<^verbatim>\<open>a - b\<close>: the difference of the wall-clock readings when both carry the same zone
  object or the same offset, the difference of the instants otherwise; mixing a naive
  and an aware value raises \<^verbatim>\<open>TypeError\<close>.
\<close>

definition dt_base_diff :: "datetime \<Rightarrow> datetime \<Rightarrow> timedelta" where
  "dt_base_diff a b =
     (let days1 = toordinal a; days2 = toordinal b;
          secs1 = second a + minute a * 60 + hour a * 3600;
          secs2 = second b + minute b * 60 + hour b * 3600
      in (days1 - days2) * 86400000000 + (secs1 - secs2) * 1000000
         + (microsecond a - microsecond b))"

definition dt_sub :: "tzdata \<Rightarrow> datetime \<Rightarrow> datetime \<Rightarrow> error + timedelta" where
  "dt_sub off a b =
     (let base = dt_base_diff a b
      in if tzinfo a = tzinfo b then Inr base
         else
           let myoff = utcoffset off a; otoff = utcoffset off b
           in if myoff = otoff then Inr base
              else (case (myoff, otoff) of
                      (Some mo, Some ot) \<Rightarrow> Inr (base + ot - mo)
                    | _ \<Rightarrow> Inl TypeError))"

text \<open>\<^verbatim>\<open>datetime._cmp\<close> and the \<^verbatim>\<open>a <= b\<close> built on it.\<close>

definition dt_cmp :: "tzdata \<Rightarrow> datetime \<Rightarrow> datetime \<Rightarrow> error + int" where
  "dt_cmp off a b =
     (let base_compare =
            (if tzinfo a = tzinfo b then True else utcoffset off a = utcoffset off b)
      in if base_compare
         then Inr (tuple_cmp
                [year a, month a, day a, hour a, minute a, second a, microsecond a]
                [year b, month b, day b, hour b, minute b, second b, microsecond b])
         else if utcoffset off a = None \<or> utcoffset off b = None then Inl TypeError
         else (case dt_sub off a b of
                 Inl e \<Rightarrow> Inl e
               | Inr diff \<Rightarrow> Inr (if diff < 0 then - 1 else if diff \<noteq> 0 then 1 else 0)))"

definition dt_le :: "tzdata \<Rightarrow> datetime \<Rightarrow> datetime \<Rightarrow> error + bool" where
  "dt_le off a b = (case dt_cmp off a b of Inl e \<Rightarrow> Inl e | Inr c \<Rightarrow> Inr (c \<le> 0))"

text \<open>
  \<^verbatim>\<open>dt.astimezone(ZoneInfo("UTC"))\<close>, as the instant it denotes: microseconds since
  0001-01-01T00:00 UTC. The library subtracts the offset from the wall-clock reading
  and raises \<^verbatim>\<open>OverflowError\<close> when that leaves the years 1 to 9999.
\<close>

definition wall_us :: "datetime \<Rightarrow> int" where
  "wall_us dt =
     (toordinal dt - 1) * 86400000000
     + (second dt + minute dt * 60 + hour dt * 3600) * 1000000 + microsecond dt"

definition astimezone_utc :: "tzdata \<Rightarrow> datetime \<Rightarrow> error + int" where
  "astimezone_utc off dt =
     (let i = wall_us dt - off (tzinfo dt) dt
      in if 0 \<le> i \<and> i < MAXORDINAL * 86400000000 then Inr i else Inl OverflowError)"

section \<open>ISO 8601 text\<close>

text \<open>
  \<^verbatim>\<open>"%0wd" % n\<close> for \<open>n \<ge> 0\<close>, and the \<^verbatim>\<open>isoformat()\<close> of a date and of a
  datetime (with \<^verbatim>\<open>timespec='auto'\<close>), the offset formatted by
  \<^verbatim>\<open>_format_offset\<close>.
\<close>

fun dec :: "nat \<Rightarrow> string" where
  "dec n = (if n < 10 then [''0123456789'' ! n] else dec (n div 10) @ [''0123456789'' ! (n mod 10)])"

declare dec.simps [simp del]

definition pad :: "nat \<Rightarrow> int \<Rightarrow> string" where
  "pad w n = (let s = dec (nat n) in replicate (w - length s) (CHR ''0'') @ s)"

definition date_isoformat :: "'a date_scheme \<Rightarrow> string" where
  "date_isoformat d = pad 4 (year d) @ ''-'' @ pad 2 (month d) @ ''-'' @ pad 2 (day d)"

definition format_time :: "int \<Rightarrow> int \<Rightarrow> int \<Rightarrow> int \<Rightarrow> string" where
  "format_time h mi s us =
     pad 2 h @ '':'' @ pad 2 mi @ '':'' @ pad 2 s @ (if us \<noteq> 0 then ''.'' @ pad 6 us else [])"

definition format_offset :: "timedelta option \<Rightarrow> string" where
  "format_offset off =
     (case off of
        None \<Rightarrow> []
      | Some d \<Rightarrow>
          let sign = (if d < 0 then ''-'' else ''+'');
              a = (if d < 0 then - d else d);
              hh = a div 3600000000; r = a mod 3600000000;
              mm = r div 60000000; ss = r mod 60000000
          in sign @ pad 2 hh @ '':'' @ pad 2 mm @
             (if ss \<noteq> 0
              then '':'' @ pad 2 (ss div 1000000) @
                   (if ss mod 1000000 \<noteq> 0 then ''.'' @ pad 6 (ss mod 1000000) else [])
              else []))"

definition isoformat :: "tzdata \<Rightarrow> datetime \<Rightarrow> string" where
  "isoformat off dt =
     date_isoformat dt @ ''T'' @ format_time (hour dt) (minute dt) (second dt) (microsecond dt)
     @ format_offset (utcoffset off dt)"

section \<open>The sales store and its query\<close>

text \<open>
  A row of the table \<^verbatim>\<open>sales\<close>, with the columns the query reads. An amount may be
  \<^verbatim>\<open>NULL\<close>; \<^verbatim>\<open>ts\<close> is an instant, in microseconds on the scale of
  \<open>astimezone_utc\<close>. Amounts and totals are exact rationals: the rounding of the
  cast to \<^verbatim>\<open>float\<close> is not modelled.
\<close>

record sale =
  team :: string
  page :: string
  amount :: "rat option"
  ts :: int

text \<open>\<^verbatim>\<open>SUM\<close> skips \<^verbatim>\<open>NULL\<close>s and is \<^verbatim>\<open>NULL\<close> when nothing is left.\<close>

definition sql_sum :: "rat option list \<Rightarrow> rat option" where
  "sql_sum xs = (case List.map_filter id xs of [] \<Rightarrow> None | y # ys \<Rightarrow> Some (sum_list (y # ys)))"

definition coalesce :: "'a option \<Rightarrow> 'a \<Rightarrow> 'a" where
  "coalesce x d = (case x of None \<Rightarrow> d | Some v \<Rightarrow> v)"

text \<open>
  The query of \<^verbatim>\<open>sales_shift\<close>, lines 74 to 78:
  \<^verbatim>\<open>SELECT page, COALESCE(SUM(amount),0)::float AS total FROM sales
  WHERE team=%s AND ts >= %s GROUP BY page ORDER BY total DESC\<close>.
  The database leaves the order of groups with equal totals open; here the groups are
  formed in the order of \<open>remdups\<close> and sorted stably.
\<close>

definition sales_query :: "string \<Rightarrow> int \<Rightarrow> sale list \<Rightarrow> (string \<times> rat) list" where
  "sales_query tm start tbl =
     (let sel = filter (\<lambda>r. team r = tm \<and> ts r \<ge> start) tbl;
          groups = map (\<lambda>p. (p, coalesce (sql_sum (map amount (filter (\<lambda>r. page r = p) sel))) 0))
                       (remdups (map page sel))
      in sort_key (\<lambda>(p, total). - total) groups)"

text \<open>
  The amount a row adds to its total (a \<^verbatim>\<open>NULL\<close> adds nothing), and whether a row is
  selected by the \<^verbatim>\<open>WHERE\<close> clause.
\<close>

definition amount_or_zero :: "sale \<Rightarrow> rat" where
  "amount_or_zero r = (case amount r of None \<Rightarrow> 0 | Some a \<Rightarrow> a)"

definition selected :: "string \<Rightarrow> int \<Rightarrow> sale \<Rightarrow> bool" where
  "selected tm start r \<longleftrightarrow> team r = tm \<and> start \<le> ts r"

text \<open>
  The total of a category in the words of the specification: the sum, over the table,
  of the amounts of the selected transactions of that category.
\<close>

definition group_total :: "string \<Rightarrow> int \<Rightarrow> sale list \<Rightarrow> string \<Rightarrow> rat" where
  "group_total tm start tbl p =
     (\<Sum>r\<leftarrow>tbl. if selected tm start r \<and> page r = p then amount_or_zero r else 0)"

section \<open>The attendance grouping\<close>

record clockin =
  shift :: string
  page_key :: string
  user_name :: string
  is_cover :: bool
  ph_ts :: datetime

text \<open>The dictionaries \<^verbatim>\<open>{"name": .., "ph_ts": ..}\<close> and \<^verbatim>\<open>{"users": [], "covers": []}\<close>.\<close>

record entry =
  name :: string
  e_ph_ts :: string

record bucket =
  users :: "entry list"
  covers :: "entry list"

type_synonym grouped = "string \<rightharpoonup> (string \<rightharpoonup> bucket)"

definition setdefault :: "('k \<rightharpoonup> 'v) \<Rightarrow> 'k \<Rightarrow> 'v \<Rightarrow> ('k \<rightharpoonup> 'v)" where
  "setdefault m k v = (case m k of None \<Rightarrow> m(k \<mapsto> v) | Some _ \<Rightarrow> m)"

text \<open>
  One iteration of the loop of \<^verbatim>\<open>attendance_today\<close>, lines 112 to 123. The
  parameter \<open>ts_iso\<close> stands for \<^verbatim>\<open>r["ph_ts"].astimezone(PH_TZ).isoformat()\<close>, which
  depends on the zone database and may raise. The two \<^verbatim>\<open>setdefault\<close>s guarantee the
  keys that the appends then look up.
\<close>

definition group_step :: "(datetime \<Rightarrow> error + string) \<Rightarrow> grouped \<Rightarrow> clockin \<Rightarrow> error + grouped" where
  "group_step ts_iso grouped r =
     (let sh = shift r; pk = page_key r;
          g1 = setdefault grouped sh Map.empty
      in case g1 sh of
           None \<Rightarrow> Inl KeyError
         | Some inner0 \<Rightarrow>
             let inner = setdefault inner0 pk \<lparr>users = [], covers = []\<rparr>
             in (case ts_iso (ph_ts r) of
                   Inl e \<Rightarrow> Inl e
                 | Inr txt \<Rightarrow>
                     let entry = \<lparr>name = user_name r, e_ph_ts = txt\<rparr>
                     in (case inner pk of
                           None \<Rightarrow> Inl KeyError
                         | Some b \<Rightarrow>
                             if is_cover r
                             then Inr (g1(sh \<mapsto> inner(pk \<mapsto> b\<lparr>covers := covers b @ [entry]\<rparr>)))
                             else Inr (g1(sh \<mapsto> inner(pk \<mapsto> b\<lparr>users := users b @ [entry]\<rparr>))))))"

fun group_rows :: "(datetime \<Rightarrow> error + string) \<Rightarrow> grouped \<Rightarrow> clockin list \<Rightarrow> error + grouped" where
  "group_rows ts_iso grouped [] = Inr grouped"
| "group_rows ts_iso grouped (r # rs) =
     (case group_step ts_iso grouped r of
        Inl e \<Rightarrow> Inl e
      | Inr g' \<Rightarrow> group_rows ts_iso g' rs)"

definition initial_grouped :: grouped where
  "initial_grouped = [''prime'' \<mapsto> Map.empty, ''midshift'' \<mapsto> Map.empty, ''closing'' \<mapsto> Map.empty]"

definition attendance_group :: "(datetime \<Rightarrow> error + string) \<Rightarrow> clockin list \<Rightarrow> error + grouped" where
  "attendance_group ts_iso rows = group_rows ts_iso initial_grouped rows"

text \<open>
  Reading the result: the two sequences of the bucket of a shift and a location key,
  empty when there is no such bucket, and whether the bucket exists.
\<close>

definition bucket_users :: "grouped \<Rightarrow> string \<Rightarrow> string \<Rightarrow> entry list" where
  "bucket_users g sh pk =
     (case g sh of
        None \<Rightarrow> []
      | Some inner \<Rightarrow> (case inner pk of None \<Rightarrow> [] | Some b \<Rightarrow> users b))"

definition bucket_covers :: "grouped \<Rightarrow> string \<Rightarrow> string \<Rightarrow> entry list" where
  "bucket_covers g sh pk =
     (case g sh of
        None \<Rightarrow> []
      | Some inner \<Rightarrow> (case inner pk of None \<Rightarrow> [] | Some b \<Rightarrow> covers b))"

definition has_bucket :: "grouped \<Rightarrow> string \<Rightarrow> string \<Rightarrow> bool" where
  "has_bucket g sh pk =
     (case g sh of None \<Rightarrow> False | Some inner \<Rightarrow> (case inner pk of None \<Rightarrow> False | Some b \<Rightarrow> True))"

text \<open>The entry a row contributes, given the text of its timestamp.\<close>

definition entry_of :: "(datetime \<Rightarrow> string) \<Rightarrow> clockin \<Rightarrow> entry" where
  "entry_of tx r = \<lparr>name = user_name r, e_ph_ts = tx (ph_ts r)\<rparr>"

section \<open>The HTTP handlers\<close>

text \<open>What a handler returns is serialised as JSON; a dictionary is a finite map on its keys.\<close>

datatype json =
    JNull
  | JBool bool
  | JNum rat
  | JStr string
  | JList "json list"
  | JDict "string \<Rightarrow> json option"

definition entry_json :: "entry \<Rightarrow> json" where
  "entry_json e = JDict [''name'' \<mapsto> JStr (name e), ''ph_ts'' \<mapsto> JStr (e_ph_ts e)]"

definition bucket_json :: "bucket \<Rightarrow> json" where
  "bucket_json b =
     JDict [''users'' \<mapsto> JList (map entry_json (users b)),
            ''covers'' \<mapsto> JList (map entry_json (covers b))]"

definition grouped_json :: "grouped \<Rightarrow> json" where
  "grouped_json g =
     JDict (\<lambda>sh. map_option (\<lambda>inner. JDict (\<lambda>pk. map_option bucket_json (inner pk))) (g sh))"

text \<open>A row of the cursor of \<^verbatim>\<open>sales_shift\<close>: the columns \<^verbatim>\<open>page\<close> and \<^verbatim>\<open>total\<close>.\<close>

definition sales_row_json :: "string \<times> rat \<Rightarrow> json" where
  "sales_row_json r = JDict [''page'' \<mapsto> JStr (fst r), ''total'' \<mapsto> JNum (snd r)]"

text \<open>
  Everything outside the process: the configured secret, the clock (its reading on the
  Manila wall clock), the zone database, and the two stores. A store that cannot be
  reached is \<open>None\<close>. The sales database holds the table \<^verbatim>\<open>sales\<close> and answers
  the query of \<^verbatim>\<open>/teams\<close> with \<open>teams_names\<close>; the attendance database answers
  the query of \<^verbatim>\<open>/attendance/today\<close> for a day with the rows in its
  \<^verbatim>\<open>ORDER BY\<close> order.
\<close>

record sales_data =
  teams_names :: "string list"
  sales_rows :: "sale list"

record world =
  INTERNAL_KEY :: string
  clock :: datetime
  tz :: tzdata
  ts_text :: "datetime \<Rightarrow> error + string"
  sales_store :: "sales_data option"
  attend_store :: "(date \<Rightarrow> clockin list) option"

text \<open>
  What a handler did besides computing: reading the clock, opening a connection,
  executing a query. A handler returns its result, or the exception it raised, with
  the trace of these events in the order they happened.
\<close>

datatype db = SalesDB | AttendDB

datatype event = ClockRead | Connect db | Execute db

type_synonym outcome = "(error + json) \<times> event list"

definition require_internal_key :: "world \<Rightarrow> string option \<Rightarrow> error + unit" where
  "require_internal_key w x_internal_key =
     (if x_internal_key \<noteq> Some (INTERNAL_KEY w)
      then Inl (HTTPException 401 ''Unauthorized'') else Inr ())"

definition now_ph :: "world \<Rightarrow> datetime" where
  "now_ph w = (clock w)\<lparr>tzinfo := Some PH_TZ\<rparr>"

definition health :: outcome where
  "health = (Inr (JDict [''ok'' \<mapsto> JBool True]), [])"

definition teams :: "world \<Rightarrow> string option \<Rightarrow> outcome" where
  "teams w x_internal_key =
     (case require_internal_key w x_internal_key of
        Inl e \<Rightarrow> (Inl e, [])
      | Inr _ \<Rightarrow>
          (case sales_store w of
             None \<Rightarrow> (Inl OperationalError, [Connect SalesDB])
           | Some sdb \<Rightarrow>
               (Inr (JList (map JStr (teams_names sdb))), [Connect SalesDB, Execute SalesDB])))"

definition sales_shift :: "world \<Rightarrow> string \<Rightarrow> string option \<Rightarrow> outcome" where
  "sales_shift w tm x_internal_key =
     (case require_internal_key w x_internal_key of
        Inl e \<Rightarrow> (Inl e, [])
      | Inr _ \<Rightarrow>
          let now = now_ph w
          in (case shift_start_ph now of
                Inl e \<Rightarrow> (Inl e, [ClockRead])
              | Inr start \<Rightarrow>
                  (case sales_store w of
                     None \<Rightarrow> (Inl OperationalError, [ClockRead, Connect SalesDB])
                   | Some sdb \<Rightarrow>
                       (case astimezone_utc (tz w) start of
                          Inl e \<Rightarrow> (Inl e, [ClockRead, Connect SalesDB])
                        | Inr boundary \<Rightarrow>
                            let rows = sales_query tm boundary (sales_rows sdb)
                            in (Inr (JDict
                                  [''team'' \<mapsto> JStr tm,
                                   ''shift_start_ph'' \<mapsto> JStr (isoformat (tz w) start),
                                   ''updated_ph'' \<mapsto> JStr (isoformat (tz w) now),
                                   ''rows'' \<mapsto> JList (map sales_row_json rows)]),
                                [ClockRead, Connect SalesDB, Execute SalesDB])))))"

definition attendance_today :: "world \<Rightarrow> string option \<Rightarrow> outcome" where
  "attendance_today w x_internal_key =
     (case require_internal_key w x_internal_key of
        Inl e \<Rightarrow> (Inl e, [])
      | Inr _ \<Rightarrow>
          let now = now_ph w
          in (case attendance_day_for now of
                Inl e \<Rightarrow> (Inl e, [ClockRead])
              | Inr att_day \<Rightarrow>
                  (case attend_store w of
                     None \<Rightarrow> (Inl OperationalError, [ClockRead, Connect AttendDB])
                   | Some adb \<Rightarrow>
                       (case attendance_group (ts_text w) (adb att_day) of
                          Inl e \<Rightarrow> (Inl e, [ClockRead, Connect AttendDB, Execute AttendDB])
                        | Inr grouped \<Rightarrow>
                            (Inr (JDict
                               [''attendance_day'' \<mapsto> JStr (date_isoformat att_day),
                                ''updated_ph'' \<mapsto> JStr (isoformat (tz w) now),
                                ''data'' \<mapsto> grouped_json grouped]),
                             [ClockRead, Connect AttendDB, Execute AttendDB])))))"

subsection \<open>The application\<close>

text \<open>
  A request is a \<^verbatim>\<open>GET\<close> of one of the four paths that \<^verbatim>\<open>main.py\<close> declares,
  with the value of the header \<^verbatim>\<open>X-Internal-Key\<close> and of the query parameter
  \<^verbatim>\<open>team\<close>, each \<open>None\<close> when absent.
\<close>

datatype route = Health | Teams | SalesShift | AttendanceToday

definition route_path :: "route \<Rightarrow> string" where
  "route_path r =
     (case r of Health \<Rightarrow> ''/health'' | Teams \<Rightarrow> ''/teams''
      | SalesShift \<Rightarrow> ''/sales/shift'' | AttendanceToday \<Rightarrow> ''/attendance/today'')"

record request =
  target :: route
  x_internal_key :: "string option"
  q_team :: "string option"

record response =
  status :: nat
  body :: json

text \<open>
  The framework binds the declared parameters before it calls the handler:
  \<^verbatim>\<open>team: str\<close> has no default, so a request without it is rejected and the body of
  \<^verbatim>\<open>sales_shift\<close> never runs; the header has the default \<^verbatim>\<open>None\<close>.
\<close>

definition endpoint :: "world \<Rightarrow> request \<Rightarrow> outcome" where
  "endpoint w rq =
     (case target rq of
        Health \<Rightarrow> health
      | Teams \<Rightarrow> teams w (x_internal_key rq)
      | SalesShift \<Rightarrow>
          (case q_team rq of
             None \<Rightarrow> (Inl RequestValidationError, [])
           | Some tm \<Rightarrow> sales_shift w tm (x_internal_key rq))
      | AttendanceToday \<Rightarrow> attendance_today w (x_internal_key rq))"

text \<open>
  The framework's exception handlers: an \<^verbatim>\<open>HTTPException\<close> becomes its status with
  its detail, a rejected request 422 (the list of validation errors in its detail is
  left empty here), any other exception 500.
\<close>

definition respond :: "error + json \<Rightarrow> response" where
  "respond r =
     (case r of
        Inr j \<Rightarrow> \<lparr>status = 200, body = j\<rparr>
      | Inl (HTTPException code detail) \<Rightarrow> \<lparr>status = code, body = JDict [''detail'' \<mapsto> JStr detail]\<rparr>
      | Inl RequestValidationError \<Rightarrow> \<lparr>status = 422, body = JDict [''detail'' \<mapsto> JList []]\<rparr>
      | Inl _ \<Rightarrow> \<lparr>status = 500, body = JStr ''Internal Server Error''\<rparr>)"

definition app :: "world \<Rightarrow> request \<Rightarrow> response \<times> event list" where
  "app w rq = (case endpoint w rq of (r, trace) \<Rightarrow> (respond r, trace))"

text \<open>
  Reading a response: a client error is a status from 400 to 499; the value under a key
  of a JSON object (\<open>None\<close> when the key is absent or the value is no object).
\<close>

definition json_get :: "json \<Rightarrow> string \<Rightarrow> json option" where
  "json_get j k = (case j of JDict m \<Rightarrow> m k | _ \<Rightarrow> None)"

definition client_error :: "nat \<Rightarrow> bool" where
  "client_error c \<longleftrightarrow> 400 \<le> c \<and> c < 500"

text \<open>
  The shape of a local ISO 8601 text with offset, as \<^verbatim>\<open>isoformat()\<close> writes it for
  an aware value: \<^verbatim>\<open>YYYY-MM-DD\<close>, the letter \<^verbatim>\<open>T\<close>, \<^verbatim>\<open>HH:MM:SS\<close> with an optional
  \<^verbatim>\<open>.ffffff\<close>, then the offset as a sign and \<^verbatim>\<open>HH:MM\<close> with an optional
  \<^verbatim>\<open>:SS\<close> and \<^verbatim>\<open>.ffffff\<close>.
\<close>

definition is_digit :: "char \<Rightarrow> bool" where
  "is_digit c \<longleftrightarrow> c \<in> set ''0123456789''"

definition all_digits :: "string \<Rightarrow> bool" where
  "all_digits s \<longleftrightarrow> list_all is_digit s"

definition date_text :: "string \<Rightarrow> bool" where
  "date_text s \<longleftrightarrow>
     length s = 10 \<and> all_digits (take 4 s) \<and> s ! 4 = CHR ''-'' \<and>
     all_digits (take 2 (drop 5 s)) \<and> s ! 7 = CHR ''-'' \<and> all_digits (drop 8 s)"

definition time_text :: "string \<Rightarrow> bool" where
  "time_text s \<longleftrightarrow>
     all_digits (take 2 s) \<and> s ! 2 = CHR '':'' \<and> all_digits (take 2 (drop 3 s)) \<and>
     s ! 5 = CHR '':'' \<and> all_digits (take 2 (drop 6 s)) \<and>
     (length s = 8 \<or> (length s = 15 \<and> s ! 8 = CHR ''.'' \<and> all_digits (drop 9 s)))"

definition offset_text :: "string \<Rightarrow> bool" where
  "offset_text s \<longleftrightarrow>
     (s ! 0 = CHR ''+'' \<or> s ! 0 = CHR ''-'') \<and> all_digits (take 2 (drop 1 s)) \<and>
     s ! 3 = CHR '':'' \<and> all_digits (take 2 (drop 4 s)) \<and>
     (length s = 6 \<or>
      (s ! 6 = CHR '':'' \<and> all_digits (take 2 (drop 7 s)) \<and>
       (length s = 9 \<or> (length s = 16 \<and> s ! 9 = CHR ''.'' \<and> all_digits (drop 10 s)))))"

definition iso8601_with_offset :: "string \<Rightarrow> bool" where
  "iso8601_with_offset s \<longleftrightarrow>
     date_text (take 10 s) \<and> s ! 10 = CHR ''T'' \<and>
     (let r = drop 11 s
      in (time_text (take 8 r) \<and> offset_text (drop 8 r))
         \<or> (time_text (take 15 r) \<and> offset_text (drop 15 r)))"

text \<open>
  What the library guarantees of the clock and of the zone database: the reading is a
  \<^verbatim>\<open>datetime\<close> object, and every offset lies strictly between minus and plus 24
  hours.
\<close>

definition wf_world :: "world \<Rightarrow> bool" where
  "wf_world w \<longleftrightarrow>
     valid_datetime (clock w) \<and> (\<forall>z dt. - td_hours 24 < tz w z dt \<and> tz w z dt < td_hours 24)"

section \<open>The calendar in the words of the specification\<close>

text \<open>
  The notions the specification states the resolvers with, written independently of the
  library's arithmetic: the time of day as the microseconds since local midnight, and
  the calendar date one day before a date (the day before the first of a month is the
  last day of the month before it, and the day before the first of January is the 31st
  of December of the year before). \<open>date_min\<close> is \<^verbatim>\<open>date.min\<close>, the earliest date
  the class represents.
\<close>

definition time_of_day_us :: "datetime \<Rightarrow> int" where
  "time_of_day_us dt = ((hour dt * 60 + minute dt) * 60 + second dt) * 1000000 + microsecond dt"

definition prev_day :: "date \<Rightarrow> date" where
  "prev_day d =
     (if 1 < day d then \<lparr>year = year d, month = month d, day = day d - 1\<rparr>
      else if 1 < month d
        then \<lparr>year = year d, month = month d - 1, day = days_in_month (year d) (month d - 1)\<rparr>
      else \<lparr>year = year d - 1, month = 12, day = 31\<rparr>)"

definition date_min :: date where
  "date_min = \<lparr>year = 1, month = 1, day = 1\<rparr>"

section \<open>Sample inputs\<close>

text \<open>
  The record behind \<^verbatim>\<open>datetime(y, m, d, h, mi, s, us, tzinfo=tz)\<close>, for writing
  examples, and the offsets the zone database gives in 2024 to the two zones the
  program names: eight hours for Manila, none for UTC.
\<close>

definition mk_datetime ::
  "int \<Rightarrow> int \<Rightarrow> int \<Rightarrow> int \<Rightarrow> int \<Rightarrow> int \<Rightarrow> int \<Rightarrow> tzinfo option \<Rightarrow> datetime" where
  "mk_datetime y m d h mi s us z =
     \<lparr>year = y, month = m, day = d, hour = h, minute = mi, second = s,
      microsecond = us, tzinfo = z, dt_fold = 0\<rparr>"

definition offsets_2024 :: tzdata where
  "offsets_2024 z dt = (if z = Some PH_TZ then td_hours 8 else 0)"

text \<open>
  For rows whose timestamps are already on the Manila wall clock,
  \<^verbatim>\<open>astimezone(PH_TZ)\<close> changes nothing and the text is the \<open>isoformat\<close> with the
  Manila offset. The rows of the specification's scenario B, and a row of a shift that
  is none of the three.
\<close>

definition sample_ts_iso :: "datetime \<Rightarrow> error + string" where
  "sample_ts_iso dt = Inr (isoformat offsets_2024 dt)"

definition mk_clockin :: "string \<Rightarrow> string \<Rightarrow> string \<Rightarrow> bool \<Rightarrow> datetime \<Rightarrow> clockin" where
  "mk_clockin sh pk nm cv t =
     \<lparr>shift = sh, page_key = pk, user_name = nm, is_cover = cv, ph_ts = t\<rparr>"

definition scenario_B_rows :: "clockin list" where
  "scenario_B_rows =
     [mk_clockin ''prime'' ''L1'' ''Ana'' False (mk_datetime 2024 3 10 8 5 0 0 (Some PH_TZ)),
      mk_clockin ''prime'' ''L1'' ''Bo'' True (mk_datetime 2024 3 10 8 10 0 0 (Some PH_TZ))]"

definition night_rows :: "clockin list" where
  "night_rows =
     [mk_clockin ''night'' ''L1'' ''Ana'' False (mk_datetime 2024 3 10 8 5 0 0 (Some PH_TZ))]"

text \<open>
  Sales rows: the three transactions of the specification's scenario A for team X, the
  first of them exactly at the boundary 1000; the same among a transaction of another
  team and one before the boundary; and a table with a refund.
\<close>

definition mk_sale :: "string \<Rightarrow> string \<Rightarrow> rat option \<Rightarrow> int \<Rightarrow> sale" where
  "mk_sale tm p a t = \<lparr>team = tm, page = p, amount = a, ts = t\<rparr>"

definition scenario_A_sales :: "sale list" where
  "scenario_A_sales =
     [mk_sale ''X'' ''A'' (Some 10) 1000,
      mk_sale ''X'' ''A'' (Some 5) 2000,
      mk_sale ''X'' ''B'' (Some 7) 3000]"

definition mixed_sales :: "sale list" where
  "mixed_sales =
     [mk_sale ''X'' ''A'' (Some 10) 1000,
      mk_sale ''Y'' ''A'' (Some 100) 1500,
      mk_sale ''X'' ''B'' (Some 7) 2000,
      mk_sale ''X'' ''B'' (Some 50) 999,
      mk_sale ''X'' ''A'' (Some 5) 3000]"

definition refund_sales :: "sale list" where
  "refund_sales = [mk_sale ''X'' ''A'' (Some (- 5)) 1000]"

text \<open>
  A world for examples: the secret is \<^verbatim>\<open>secret\<close>, the Manila wall clock reads 09:30
  on 2024-03-10, the sales table holds the rows of scenario A counted from the instant
  of 08:00 that day in Manila (00:00 UTC), and the attendance store answers with the
  rows of scenario B. Two requests without a key, and one with the key and no team.
\<close>

definition sample_world :: world where
  "sample_world =
     \<lparr>INTERNAL_KEY = ''secret'',
      clock = mk_datetime 2024 3 10 9 30 0 0 None,
      tz = offsets_2024,
      ts_text = sample_ts_iso,
      sales_store = Some \<lparr>teams_names = [''X'', ''Y''],
                           sales_rows = map (\<lambda>r. r\<lparr>ts := ts r + 63845625599999000\<rparr>) scenario_A_sales\<rparr>,
      attend_store = Some (\<lambda>d. scenario_B_rows)\<rparr>"

definition mk_request :: "route \<Rightarrow> string option \<Rightarrow> string option \<Rightarrow> request" where
  "mk_request r k t = \<lparr>target = r, x_internal_key = k, q_team = t\<rparr>"

section \<open>Properties of the shift resolver\<close>

lemmas validity_defs =
  valid_datetime_def valid_date_def check_date_fields_def check_time_fields_def
  MINYEAR_def MAXYEAR_def days_in_month_def DAYS_IN_MONTH_def is_leap_def

lemma shift_start_ph_value:
  assumes "valid_datetime t"
  shows "shift_start_ph t =
    Inr \<lparr>year = year t, month = month t, day = day t,
         hour = (if 8 \<le> hour t \<and> hour t < 16 then 8 else if 16 \<le> hour t then 16 else 0),
         minute = 0, second = 0, microsecond = 0, tzinfo = Some PH_TZ, dt_fold = 0\<rparr>"
  using assms
  by (simp add: shift_start_ph_def datetime_new_def date_of_def valid_datetime_def valid_date_def
      check_time_fields_def Let_def)

text \<open>
  Claim C1. For every timestamp \<open>t\<close> (an object of the class, so its fields are in
  range; the zone it carries plays no part), \<open>shift_start_ph t\<close> raises nothing and
  returns a timestamp with the year, month and day of \<open>t\<close>, with minute, second and
  microsecond zero, in the Manila zone, whose hour is 8 when \<open>8 \<le> hour t < 16\<close>, 16
  when \<open>16 \<le> hour t < 24\<close> and 0 when \<open>0 \<le> hour t < 8\<close>; an hour of exactly 8, 16 or 0
  is kept. The date and the hour are the fields \<open>t\<close> itself carries.
\<close>

theorem shift_start_ph_hour:
  assumes "valid_datetime t"
  shows "\<exists>s. shift_start_ph t = Inr s \<and> valid_datetime s
           \<and> date_of s = date_of t
           \<and> minute s = 0 \<and> second s = 0 \<and> microsecond s = 0 \<and> tzinfo s = Some PH_TZ
           \<and> (8 \<le> hour t \<and> hour t < 16 \<longrightarrow> hour s = 8)
           \<and> (16 \<le> hour t \<and> hour t < 24 \<longrightarrow> hour s = 16)
           \<and> (0 \<le> hour t \<and> hour t < 8 \<longrightarrow> hour s = 0)
           \<and> (hour t = 8 \<or> hour t = 16 \<or> hour t = 0 \<longrightarrow> hour s = hour t)"
  using assms unfolding shift_start_ph_value [OF assms]
  by (auto simp: date_of_def valid_datetime_def valid_date_def check_time_fields_def)

theorem shift_start_ph_hour_witness:
  "valid_datetime (mk_datetime 2024 3 10 16 0 0 0 (Some UTC)) \<and>
   (\<exists>s. shift_start_ph (mk_datetime 2024 3 10 16 0 0 0 (Some UTC)) = Inr s
        \<and> date_of s = \<lparr>year = 2024, month = 3, day = 10\<rparr>
        \<and> hour s = 16 \<and> minute s = 0 \<and> second s = 0 \<and> tzinfo s = Some PH_TZ)"
proof -
  let ?t = "mk_datetime 2024 3 10 16 0 0 0 (Some UTC)"
  have v: "valid_datetime ?t"
    by (simp add: validity_defs mk_datetime_def)
  have h: "hour ?t = 16" and d: "date_of ?t = \<lparr>year = 2024, month = 3, day = 10\<rparr>"
    by (simp_all add: mk_datetime_def date_of_def)
  from shift_start_ph_hour [OF v] obtain s where
    "shift_start_ph ?t = Inr s" "date_of s = date_of ?t"
    "minute s = 0" "second s = 0" "tzinfo s = Some PH_TZ"
    "hour ?t = 8 \<or> hour ?t = 16 \<or> hour ?t = 0 \<longrightarrow> hour s = hour ?t"
    by blast
  with v h d show ?thesis by auto
qed

lemma tuple_cmp_same_date:
  "tuple_cmp [y, m, d, h0, 0, 0, 0] [y, m, d, h, mi, s, us] \<le> 0"
  if "h0 \<le> h" "0 \<le> mi" "0 \<le> s" "0 \<le> us"
  using that by auto

text \<open>
  Claim C10, as the code has it. For every timestamp \<open>t\<close>, the shift start of the shift
  start of \<open>t\<close> is the shift start of \<open>t\<close>. When \<open>t\<close> carries the Manila zone, as
  every reading of \<open>now_ph\<close> does, the library's \<^verbatim>\<open>shift_start_ph(t) <= t\<close> is true
  and \<^verbatim>\<open>t - shift_start_ph(t)\<close> is at least zero and less than eight hours, whatever
  the zone database says.
\<close>

theorem shift_start_ph_idempotent_nonincreasing:
  assumes "valid_datetime t"
  shows "\<exists>s. shift_start_ph t = Inr s \<and> shift_start_ph s = Inr s
           \<and> (tzinfo t = Some PH_TZ \<longrightarrow>
                dt_le off s t = Inr True
                \<and> (\<exists>delta. dt_sub off t s = Inr delta \<and> 0 \<le> delta \<and> delta < td_hours 8))"
proof -
  let ?h = "if 8 \<le> hour t \<and> hour t < 16 then 8 else if 16 \<le> hour t then 16 else (0::int)"
  let ?s = "\<lparr>year = year t, month = month t, day = day t, hour = ?h,
         minute = 0, second = 0, microsecond = 0, tzinfo = Some PH_TZ, dt_fold = 0\<rparr>"
  have s: "shift_start_ph t = Inr ?s"
    by (rule shift_start_ph_value [OF assms])
  have vs: "valid_datetime ?s"
    using assms by (simp add: valid_datetime_def valid_date_def check_time_fields_def)
  have idem: "shift_start_ph ?s = Inr ?s"
    unfolding shift_start_ph_value [OF vs] by simp
  have rng: "0 \<le> hour t" "hour t \<le> 23" "0 \<le> minute t" "minute t \<le> 59"
    "0 \<le> second t" "second t \<le> 59" "0 \<le> microsecond t" "microsecond t \<le> 999999"
    using assms by (simp_all add: valid_datetime_def check_time_fields_def)
  have hle: "?h \<le> hour t" "hour t - ?h \<le> 7"
    using rng by auto
  have ord: "toordinal ?s = toordinal t"
    by (simp add: toordinal_def)
  have le: "dt_le off ?s t = Inr True" if "tzinfo t = Some PH_TZ"
    using that tuple_cmp_same_date [OF hle(1) rng(3) rng(5) rng(7)]
    by (simp add: dt_le_def dt_cmp_def)
  have sub: "dt_sub off t ?s = Inr (dt_base_diff t ?s)" if "tzinfo t = Some PH_TZ"
    using that by (simp add: dt_sub_def Let_def)
  have base: "dt_base_diff t ?s =
      (hour t - ?h) * 3600000000 + minute t * 60000000 + second t * 1000000 + microsecond t"
    by (simp add: dt_base_diff_def ord Let_def algebra_simps)
  have lo: "0 \<le> dt_base_diff t ?s" and hi: "dt_base_diff t ?s < td_hours 8"
    unfolding base td_hours_def using rng hle by auto
  show ?thesis
    using s idem le sub lo hi by auto
qed

lemmas dt_eval_defs =
  mk_datetime_def toordinal_def ymd2ord_def days_before_year_def days_before_month_def
  DAYS_BEFORE_MONTH_def is_leap_def

theorem shift_start_ph_idempotent_nonincreasing_witness:
  "valid_datetime (mk_datetime 2024 3 10 15 59 59 999999 (Some PH_TZ)) \<and>
   tzinfo (mk_datetime 2024 3 10 15 59 59 999999 (Some PH_TZ)) = Some PH_TZ \<and>
   shift_start_ph (mk_datetime 2024 3 10 15 59 59 999999 (Some PH_TZ))
     = Inr (mk_datetime 2024 3 10 8 0 0 0 (Some PH_TZ)) \<and>
   shift_start_ph (mk_datetime 2024 3 10 8 0 0 0 (Some PH_TZ))
     = Inr (mk_datetime 2024 3 10 8 0 0 0 (Some PH_TZ)) \<and>
   dt_le offsets_2024 (mk_datetime 2024 3 10 8 0 0 0 (Some PH_TZ))
     (mk_datetime 2024 3 10 15 59 59 999999 (Some PH_TZ)) = Inr True \<and>
   dt_sub offsets_2024 (mk_datetime 2024 3 10 15 59 59 999999 (Some PH_TZ))
     (mk_datetime 2024 3 10 8 0 0 0 (Some PH_TZ)) = Inr (td_hours 8 - 1)"
proof -
  let ?t = "mk_datetime 2024 3 10 15 59 59 999999 (Some PH_TZ)"
  let ?s = "mk_datetime 2024 3 10 8 0 0 0 (Some PH_TZ)"
  have v: "valid_datetime ?t"
    by (simp add: validity_defs mk_datetime_def)
  have z: "tzinfo ?t = Some PH_TZ"
    by (simp add: mk_datetime_def)
  have s: "shift_start_ph ?t = Inr ?s"
    by (simp add: shift_start_ph_value [OF v]) (simp add: mk_datetime_def)
  from shift_start_ph_idempotent_nonincreasing [OF v, of offsets_2024] s z
  have "shift_start_ph ?s = Inr ?s" "dt_le offsets_2024 ?s ?t = Inr True"
    by auto
  moreover have "dt_sub offsets_2024 ?t ?s = Inr (td_hours 8 - 1)"
    by (simp add: dt_sub_def dt_base_diff_def td_hours_def Let_def dt_eval_defs)
  ultimately show ?thesis using v z s by simp
qed

text \<open>
  Claim C10 as stated, for every zone-aware timestamp, fails for a timestamp in another
  zone: the hour is read off the fields of \<open>t\<close>, the result is put on the Manila wall
  clock, and the library compares values of different zones as instants. For 09:00 UTC
  on 2024-03-10 the shift start is 08:00 in Manila, which is 00:00 UTC, nine hours
  before \<open>t\<close>.
\<close>

theorem shift_start_ph_other_zone_counterexample:
  "valid_datetime (mk_datetime 2024 3 10 9 0 0 0 (Some UTC)) \<and>
   aware (mk_datetime 2024 3 10 9 0 0 0 (Some UTC)) \<and>
   shift_start_ph (mk_datetime 2024 3 10 9 0 0 0 (Some UTC))
     = Inr (mk_datetime 2024 3 10 8 0 0 0 (Some PH_TZ)) \<and>
   dt_sub offsets_2024 (mk_datetime 2024 3 10 9 0 0 0 (Some UTC))
     (mk_datetime 2024 3 10 8 0 0 0 (Some PH_TZ)) = Inr (td_hours 9) \<and>
   \<not> td_hours 9 < td_hours 8"
proof -
  let ?t = "mk_datetime 2024 3 10 9 0 0 0 (Some UTC)"
  have v: "valid_datetime ?t"
    by (simp add: validity_defs mk_datetime_def)
  have s: "shift_start_ph ?t = Inr (mk_datetime 2024 3 10 8 0 0 0 (Some PH_TZ))"
    by (simp add: shift_start_ph_value [OF v]) (simp add: mk_datetime_def)
  have d: "dt_sub offsets_2024 ?t (mk_datetime 2024 3 10 8 0 0 0 (Some PH_TZ)) = Inr (td_hours 9)"
    by (simp add: dt_sub_def dt_base_diff_def utcoffset_def offsets_2024_def td_hours_def
        Let_def PH_TZ_def UTC_def dt_eval_defs)
  show ?thesis using v s d by (simp add: aware_def mk_datetime_def td_hours_def)
qed


section \<open>Properties of the calendar arithmetic\<close>

text \<open>
  The library's conversion from an ordinal back to a date inverts its conversion from a
  date to an ordinal, on every date of the years 1 to 9999; the ordinal of a date is
  strictly monotone in (year, month, day).
\<close>

lemma div_step_gen:
  fixes y :: int
  assumes "0 < k"
  shows "y div k - (y - 1) div k = (if y mod k = 0 then 1 else 0)"
proof (cases "y mod k = 0")
  case True
  have "y = k * (y div k)" using True by (metis mult_div_mod_eq add.right_neutral)
  then have "y - 1 = k * (y div k - 1) + (k - 1)"
    by (simp add: algebra_simps)
  then have "(y - 1) div k = y div k - 1"
    by (rule int_div_pos_eq) (use assms in auto)
  with True show ?thesis by simp
next
  case False
  have "0 \<le> y mod k" "y mod k < k" using assms by simp_all
  with False have b: "0 \<le> y mod k - 1" "y mod k - 1 < k" by linarith+
  have "y - 1 = k * (y div k) + (y mod k - 1)" by simp
  then have "(y - 1) div k = y div k"
    using b by (rule int_div_pos_eq)
  with False show ?thesis by simp
qed

lemma mod_chain:
  fixes y :: int
  shows "y mod 400 = 0 \<Longrightarrow> y mod 100 = 0" and "y mod 100 = 0 \<Longrightarrow> y mod 4 = 0"
proof -
  have a: "(100::int) dvd 400" and b: "(4::int) dvd 100" by simp_all
  show "y mod 400 = 0 \<Longrightarrow> y mod 100 = 0"
    using dvd_trans [OF a, of y] by (simp add: mod_eq_0_iff_dvd)
  show "y mod 100 = 0 \<Longrightarrow> y mod 4 = 0"
    using dvd_trans [OF b, of y] by (simp add: mod_eq_0_iff_dvd)
qed

lemma days_before_year_decomp:
  assumes "0 \<le> b" "b \<le> 3" "0 \<le> c" "c \<le> 24" "0 \<le> e" "e \<le> 3"
  shows "days_before_year (400 * a + 100 * b + 4 * c + e + 1)
           = 146097 * a + 36524 * b + 1461 * c + 365 * e"
proof -
  let ?y = "400 * a + 100 * b + 4 * c + e"
  have d4: "?y div 4 = 100 * a + 25 * b + c"
    by (rule int_div_pos_eq [where r = e]) (use assms in auto)
  have d100: "?y div 100 = 4 * a + b"
    by (rule int_div_pos_eq [where r = "4 * c + e"]) (use assms in auto)
  have d400: "?y div 400 = a"
    by (rule int_div_pos_eq [where r = "100 * b + 4 * c + e"]) (use assms in auto)
  show ?thesis
    by (simp add: days_before_year_def Let_def d4 d100 d400)
qed

lemma is_leap_decomp:
  assumes "0 \<le> b" "b \<le> 3" "0 \<le> c" "c \<le> 24" "0 \<le> e" "e \<le> 3"
  shows "is_leap (400 * a + 100 * b + 4 * c + e + 1) \<longleftrightarrow> e = 3 \<and> (c \<noteq> 24 \<or> b = 3)"
proof -
  let ?y = "400 * a + 100 * b + 4 * c + e + 1"
  have m4: "?y mod 4 = 0 \<longleftrightarrow> e = 3"
  proof (cases "e = 3")
    case True
    have "?y mod 4 = 0"
      by (rule int_mod_pos_eq [where q = "100 * a + 25 * b + c + 1"]) (use True in auto)
    with True show ?thesis by simp
  next
    case False
    have "?y mod 4 = e + 1"
      by (rule int_mod_pos_eq [where q = "100 * a + 25 * b + c"]) (use False assms in auto)
    with False assms show ?thesis by simp
  qed
  have m100: "?y mod 100 = 0 \<longleftrightarrow> c = 24 \<and> e = 3"
  proof (cases "c = 24 \<and> e = 3")
    case True
    have "?y mod 100 = 0"
      by (rule int_mod_pos_eq [where q = "4 * a + b + 1"]) (use True in auto)
    with True show ?thesis by simp
  next
    case False
    have "?y mod 100 = 4 * c + e + 1"
      by (rule int_mod_pos_eq [where q = "4 * a + b"]) (use False assms in auto)
    with False assms show ?thesis by auto
  qed
  have m400: "?y mod 400 = 0 \<longleftrightarrow> b = 3 \<and> c = 24 \<and> e = 3"
  proof (cases "b = 3 \<and> c = 24 \<and> e = 3")
    case True
    have "?y mod 400 = 0"
      by (rule int_mod_pos_eq [where q = "a + 1"]) (use True in auto)
    with True show ?thesis by simp
  next
    case False
    have "?y mod 400 = 100 * b + 4 * c + e + 1"
      by (rule int_mod_pos_eq [where q = a]) (use False assms in auto)
    with False assms show ?thesis by auto
  qed
  show ?thesis
    unfolding is_leap_def m4 m100 m400 by auto
qed

lemma month_day_part:
  fixes k y yr :: int and leap :: bool
  assumes k: "0 \<le> k" "k < (if leap then 366 else 365)" and leap: "is_leap y = leap"
  shows "\<exists>m d.
          (let mo = (k + 50) div 32;
               preceding = DAYS_BEFORE_MONTH ! nat mo + (if mo > 2 \<and> leap then 1 else 0)
           in if preceding > k
              then let mo' = mo - 1;
                       preceding' = preceding -
                         (DAYS_IN_MONTH ! nat mo' + (if mo' = 2 \<and> leap then 1 else 0))
                   in (yr, mo', k - preceding' + 1)
              else (yr, mo, k - preceding + 1)) = (yr, m, d)
          \<and> 1 \<le> m \<and> m \<le> 12 \<and> 1 \<le> d \<and> d \<le> days_in_month y m
          \<and> days_before_month y m + d = k + 1"
proof -
  define mo where "mo = (k + 50) div 32"
  have lo: "32 * mo \<le> k + 50" and hi: "k + 50 < 32 * mo + 32"
    unfolding mo_def by linarith+
  have "1 \<le> mo" "mo \<le> 12"
    using k lo hi by (auto split: if_splits)
  then consider "mo = 1" | "mo = 2" | "mo = 3" | "mo = 4" | "mo = 5" | "mo = 6"
    | "mo = 7" | "mo = 8" | "mo = 9" | "mo = 10" | "mo = 11" | "mo = 12"
    by atomize_elim presburger
  then show ?thesis
    using lo hi k leap unfolding mo_def [symmetric]
    by cases
      (auto simp add: Let_def DAYS_BEFORE_MONTH_def DAYS_IN_MONTH_def days_in_month_def
         days_before_month_def)
qed

lemma ord2ymd_correct:
  assumes n: "1 \<le> n"
  shows "case ord2ymd n of
           (y, m, d) \<Rightarrow> ymd2ord y m d = n \<and> 1 \<le> y \<and> 1 \<le> m \<and> m \<le> 12 \<and> 1 \<le> d
                         \<and> d \<le> days_in_month y m \<and> (n \<le> MAXORDINAL \<longrightarrow> y \<le> MAXYEAR)"
proof -
  define a where "a = (n - 1) div 146097"
  define r1 where "r1 = (n - 1) mod 146097"
  define b where "b = r1 div 36524"
  define r2 where "r2 = r1 mod 36524"
  define c where "c = r2 div 1461"
  define r3 where "r3 = r2 mod 1461"
  define e where "e = r3 div 365"
  define k where "k = r3 mod 365"
  have N: "n - 1 = 146097 * a + r1" and r1: "0 \<le> r1" "r1 < 146097"
    unfolding a_def r1_def by simp_all
  have R1: "r1 = 36524 * b + r2" and r2: "0 \<le> r2" "r2 < 36524"
    unfolding b_def r2_def by simp_all
  have R2: "r2 = 1461 * c + r3" and r3: "0 \<le> r3" "r3 < 1461"
    unfolding c_def r3_def by simp_all
  have R3: "r3 = 365 * e + k" and k: "0 \<le> k" "k < 365"
    unfolding e_def k_def by simp_all
  have a: "0 \<le> a" using n unfolding a_def by simp
  have b: "0 \<le> b" "b \<le> 4" using r1 unfolding b_def by simp_all
  have c: "0 \<le> c" "c \<le> 24" using r2 unfolding c_def by simp_all
  have e: "0 \<le> e" "e \<le> 4" using r3 unfolding e_def by simp_all
  have unfold: "ord2ymd n =
     (if e = 4 \<or> b = 4 then (a * 400 + 1 + b * 100 + c * 4 + e - 1, 12, 31)
      else
        let leapyear = (e = 3 \<and> (c \<noteq> 24 \<or> b = 3));
            mo = (k + 50) div 32;
            preceding = DAYS_BEFORE_MONTH ! nat mo + (if mo > 2 \<and> leapyear then 1 else 0)
        in if preceding > k
           then let mo' = mo - 1;
                    preceding' = preceding -
                      (DAYS_IN_MONTH ! nat mo' + (if mo' = 2 \<and> leapyear then 1 else 0))
                in (a * 400 + 1 + b * 100 + c * 4 + e, mo', k - preceding' + 1)
           else (a * 400 + 1 + b * 100 + c * 4 + e, mo, k - preceding + 1))"
    unfolding ord2ymd_def DI400Y_def DI100Y_def DI4Y_def Let_def
      a_def [symmetric] r1_def [symmetric] b_def [symmetric] r2_def [symmetric]
      c_def [symmetric] r3_def [symmetric] e_def [symmetric] k_def [symmetric]
    by (simp add: add.assoc)
  define Y where "Y = a * 400 + 1 + b * 100 + c * 4 + e"
  show ?thesis
  proof (cases "b = 4")
    case True
    then have z: "r2 = 0" "c = 0" "r3 = 0" "e = 0" "k = 0"
      using R1 r1 r2 unfolding c_def r3_def e_def k_def by simp_all
    have Y: "Y - 1 = 400 * a + 100 * 3 + 4 * 24 + 3 + 1"
      unfolding Y_def using True z by simp
    have res: "ord2ymd n = (Y - 1, 12, 31)"
      unfolding unfold Y_def using True by simp
    have dby: "days_before_year (Y - 1) = 146097 * a + 36524 * 3 + 1461 * 24 + 365 * 3"
      unfolding Y by (rule days_before_year_decomp) simp_all
    have lp: "is_leap (Y - 1)"
      unfolding Y by (subst is_leap_decomp) simp_all
    have ymax: "n \<le> MAXORDINAL \<longrightarrow> Y - 1 \<le> MAXYEAR"
      unfolding Y using N R1 True z a unfolding MAXORDINAL_def MAXYEAR_def by linarith
    have y1: "1 \<le> Y - 1" unfolding Y using a by simp
    have nn: "n = 146097 * a + 36524 * 3 + 1461 * 24 + 365 * 3 + 366"
      using N R1 True z by simp
    show ?thesis
      unfolding res using lp ymax y1
      by (simp add: ymd2ord_def dby nn days_before_month_def days_in_month_def
          DAYS_BEFORE_MONTH_def DAYS_IN_MONTH_def)
  next
    case b4: False
    then have b3: "b \<le> 3" using b by simp
    show ?thesis
    proof (cases "e = 4")
      case True
      then have k0: "k = 0" using R3 r3 k by simp
      have c23: "c \<le> 23" using R2 R3 True r2 k by simp
      have Y: "Y - 1 = 400 * a + 100 * b + 4 * c + 3 + 1"
        unfolding Y_def using True by simp
      have res: "ord2ymd n = (Y - 1, 12, 31)"
        unfolding unfold Y_def using True by simp
      have dby: "days_before_year (Y - 1) = 146097 * a + 36524 * b + 1461 * c + 365 * 3"
        unfolding Y by (rule days_before_year_decomp) (use b b3 c in simp_all)
      have lp: "is_leap (Y - 1)"
        unfolding Y by (subst is_leap_decomp) (use b b3 c c23 in simp_all)
      have ymax: "n \<le> MAXORDINAL \<longrightarrow> Y - 1 \<le> MAXYEAR"
        unfolding Y using N R1 R2 R3 True k0 a b b3 c c23 unfolding MAXORDINAL_def MAXYEAR_def
        by linarith
      have y1: "1 \<le> Y - 1" unfolding Y using a b c by simp
      have nn: "n = 146097 * a + 36524 * b + 1461 * c + 365 * 3 + 366"
        using N R1 R2 R3 True k0 by simp
      show ?thesis
        unfolding res using lp ymax y1
        by (simp add: ymd2ord_def dby nn days_before_month_def days_in_month_def
            DAYS_BEFORE_MONTH_def DAYS_IN_MONTH_def)
    next
      case e4: False
      then have e3: "e \<le> 3" using e by simp
      have Y: "Y = 400 * a + 100 * b + 4 * c + e + 1"
        unfolding Y_def by simp
      have dby: "days_before_year Y = 146097 * a + 36524 * b + 1461 * c + 365 * e"
        unfolding Y by (rule days_before_year_decomp) (use b b3 c e e3 in simp_all)
      have lp: "is_leap Y = (e = 3 \<and> (c \<noteq> 24 \<or> b = 3))"
        unfolding Y by (rule is_leap_decomp) (use b b3 c e e3 in simp_all)
      have kk: "k < (if (e = 3 \<and> (c \<noteq> 24 \<or> b = 3)) then 366 else 365)"
        using k by simp
      have ymax: "n \<le> MAXORDINAL \<longrightarrow> Y \<le> MAXYEAR"
        unfolding Y using N R1 R2 R3 k a b b3 c e e3 unfolding MAXORDINAL_def MAXYEAR_def
        by linarith
      have y1: "1 \<le> Y" unfolding Y using a b c e by simp
      have nn: "n = days_before_year Y + k + 1"
        unfolding dby using N R1 R2 R3 by simp
      have res: "ord2ymd n =
        (let mo = (k + 50) div 32;
             preceding = DAYS_BEFORE_MONTH ! nat mo
               + (if mo > 2 \<and> (e = 3 \<and> (c \<noteq> 24 \<or> b = 3)) then 1 else 0)
         in if preceding > k
            then let mo' = mo - 1;
                     preceding' = preceding -
                       (DAYS_IN_MONTH ! nat mo'
                        + (if mo' = 2 \<and> (e = 3 \<and> (c \<noteq> 24 \<or> b = 3)) then 1 else 0))
                 in (Y, mo', k - preceding' + 1)
            else (Y, mo, k - preceding + 1))"
        unfolding unfold Y_def using b4 e4 by (simp add: Let_def)
      from month_day_part [OF k(1) kk lp, of Y] obtain m d where
        md: "ord2ymd n = (Y, m, d)" and m: "1 \<le> m" "m \<le> 12"
        and d: "1 \<le> d" "d \<le> days_in_month Y m" and s: "days_before_month Y m + d = k + 1"
        unfolding res by blast
      show ?thesis
        unfolding md using ymax y1 m d s nn by (simp add: ymd2ord_def)
    qed
  qed
qed

lemma days_before_year_Suc:
  "days_before_year (y + 1) = days_before_year y + 365 + (if is_leap y then 1 else 0)"
proof -
  define p where "p = (y - 1) div 4"
  define q where "q = (y - 1) div 100"
  define r where "r = (y - 1) div 400"
  have A: "days_before_year (y + 1) = y * 365 + y div 4 - y div 100 + y div 400"
    unfolding days_before_year_def Let_def by simp
  have B: "days_before_year y = (y - 1) * 365 + p - q + r"
    unfolding days_before_year_def Let_def p_def q_def r_def ..
  have d4: "y div 4 = p + (if y mod 4 = 0 then 1 else 0)"
    using div_step_gen [of 4 y] unfolding p_def by linarith
  have d100: "y div 100 = q + (if y mod 100 = 0 then 1 else 0)"
    using div_step_gen [of 100 y] unfolding q_def by linarith
  have d400: "y div 400 = r + (if y mod 400 = 0 then 1 else 0)"
    using div_step_gen [of 400 y] unfolding r_def by linarith
  consider (a) "y mod 400 = 0" "y mod 100 = 0" "y mod 4 = 0"
    | (b) "y mod 400 \<noteq> 0" "y mod 100 = 0" "y mod 4 = 0"
    | (c) "y mod 100 \<noteq> 0" "y mod 400 \<noteq> 0" "y mod 4 = 0"
    | (d) "y mod 4 \<noteq> 0" "y mod 100 \<noteq> 0" "y mod 400 \<noteq> 0"
    using mod_chain [of y] by atomize_elim meson
  then show ?thesis
  proof cases
    case a
    then have "is_leap y" by (simp add: is_leap_def)
    then show ?thesis unfolding A B d4 d100 d400 using a by simp
  next
    case b
    then have "\<not> is_leap y" by (simp add: is_leap_def)
    then show ?thesis unfolding A B d4 d100 d400 using b by simp
  next
    case c
    then have "is_leap y" by (simp add: is_leap_def)
    then show ?thesis unfolding A B d4 d100 d400 using c by simp
  next
    case d
    then have "\<not> is_leap y" by (simp add: is_leap_def)
    then show ?thesis unfolding A B d4 d100 d400 using d by simp
  qed
qed

lemma days_before_year_mono:
  assumes "y \<le> y'"
  shows "days_before_year y \<le> days_before_year y'"
  using assms
proof (induction y' rule: int_ge_induct)
  case base
  show ?case by simp
next
  case (step i)
  then show ?case by (simp add: days_before_year_Suc)
qed

lemma nat_month_cases:
  fixes m :: int
  assumes "1 \<le> m" "m \<le> 12"
  obtains "m = 1" | "m = 2" | "m = 3" | "m = 4" | "m = 5" | "m = 6"
    | "m = 7" | "m = 8" | "m = 9" | "m = 10" | "m = 11" | "m = 12"
  using assms by atomize_elim presburger

lemma days_before_month_next:
  assumes "1 \<le> m" "m \<le> 11"
  shows "days_before_month y (m + 1) = days_before_month y m + days_in_month y m"
proof -
  from assms have "1 \<le> m" "m \<le> 12" by simp_all
  then show ?thesis
    using assms
    by (cases m rule: nat_month_cases)
       (simp_all add: days_before_month_def days_in_month_def DAYS_BEFORE_MONTH_def DAYS_IN_MONTH_def)
qed

lemma days_in_month_pos:
  assumes "1 \<le> m" "m \<le> 12"
  shows "28 \<le> days_in_month y m" "days_in_month y m \<le> 31"
  using assms
  by (cases m rule: nat_month_cases; simp add: days_in_month_def DAYS_IN_MONTH_def)+

lemma days_before_month_mono:
  assumes "1 \<le> m" "m \<le> m'" "m' \<le> 12"
  shows "days_before_month y m \<le> days_before_month y m'"
  using assms(2,1,3)
proof (induction m' rule: int_ge_induct)
  case base
  show ?case by simp
next
  case (step i)
  then have "days_before_month y (i + 1) = days_before_month y i + days_in_month y i"
    by (intro days_before_month_next) simp_all
  moreover have "0 \<le> days_in_month y i"
    using days_in_month_pos(1) [of i y] step by simp
  ultimately show ?case using step by simp
qed

lemma days_before_month_bounds:
  assumes "1 \<le> m" "m \<le> 12"
  shows "0 \<le> days_before_month y m"
    and "days_before_month y m + days_in_month y m \<le> 365 + (if is_leap y then 1 else 0)"
  using assms
  by (cases m rule: nat_month_cases;
      simp add: days_before_month_def days_in_month_def DAYS_BEFORE_MONTH_def DAYS_IN_MONTH_def)+

lemma ymd2ord_inj:
  assumes v1: "1 \<le> m1" "m1 \<le> 12" "1 \<le> d1" "d1 \<le> days_in_month y1 m1"
    and v2: "1 \<le> m2" "m2 \<le> 12" "1 \<le> d2" "d2 \<le> days_in_month y2 m2"
    and eq: "ymd2ord y1 m1 d1 = ymd2ord y2 m2 d2"
  shows "y1 = y2 \<and> m1 = m2 \<and> d1 = d2"
proof -
  have year_lt: False
    if lt: "y < y'" and eq: "ymd2ord y m d = ymd2ord y' m' d'"
      and v: "1 \<le> m" "m \<le> 12" "d \<le> days_in_month y m" and v': "1 \<le> m'" "m' \<le> 12" "1 \<le> d'"
    for y m d y' m' d' :: int
  proof -
    have "ymd2ord y m d \<le> days_before_year y + (365 + (if is_leap y then 1 else 0))"
      unfolding ymd2ord_def using days_before_month_bounds(2) [OF v(1,2), of y] v(3) by simp
    also have "\<dots> = days_before_year (y + 1)"
      by (simp add: days_before_year_Suc)
    also have "\<dots> \<le> days_before_year y'"
      using lt by (intro days_before_year_mono) simp
    also have "\<dots> < ymd2ord y' m' d'"
      unfolding ymd2ord_def using days_before_month_bounds(1) [OF v'(1,2), of y'] v'(3) by simp
    finally show False using eq by simp
  qed
  have y: "y1 = y2"
  proof (rule ccontr)
    assume "y1 \<noteq> y2"
    then consider "y1 < y2" | "y2 < y1" by linarith
    then show False
    proof cases
      case 1
      from year_lt [OF 1 eq v1(1,2,4) v2(1,2,3)] show False .
    next
      case 2
      from year_lt [OF 2 eq [symmetric] v2(1,2,4) v1(1,2,3)] show False .
    qed
  qed
  have month_lt: False
    if lt: "m < m'" and eq: "days_before_month y m + d = days_before_month y m' + d'"
      and v: "1 \<le> m" "d \<le> days_in_month y m" and v': "m' \<le> 12" "1 \<le> d'"
    for y m d m' d' :: int
  proof -
    have "days_before_month y m + d \<le> days_before_month y (m + 1)"
      using days_before_month_next [of m y] v lt v' by simp
    also have "\<dots> \<le> days_before_month y m'"
      using lt v v' by (intro days_before_month_mono) simp_all
    also have "\<dots> < days_before_month y m' + d'"
      using v' by simp
    finally show False using eq by simp
  qed
  have eq': "days_before_month y2 m1 + d1 = days_before_month y2 m2 + d2"
    using eq unfolding ymd2ord_def y by simp
  have m: "m1 = m2"
  proof (rule ccontr)
    assume "m1 \<noteq> m2"
    then consider "m1 < m2" | "m2 < m1" by linarith
    then show False
    proof cases
      case 1
      from month_lt [OF 1 eq' v1(1) v1(4) [unfolded y] v2(2,3)] show False .
    next
      case 2
      from month_lt [OF 2 eq' [symmetric] v2(1,4) v1(2,3)] show False .
    qed
  qed
  from eq' m have "d1 = d2" by simp
  with y m show ?thesis by simp
qed

lemma days_before_year_1: "days_before_year 1 = 0"
  by (simp add: days_before_year_def)

lemma days_before_year_10000: "days_before_year 10000 = 3652059"
  by (simp add: days_before_year_def)

lemma toordinal_bounds:
  assumes "valid_date d"
  shows "1 \<le> toordinal d" and "toordinal d \<le> MAXORDINAL"
proof -
  from assms have y: "1 \<le> year d" "year d \<le> 9999" and m: "1 \<le> month d" "month d \<le> 12"
    and dd: "1 \<le> day d" "day d \<le> days_in_month (year d) (month d)"
    by (simp_all add: valid_date_def check_date_fields_def MINYEAR_def MAXYEAR_def)
  have "0 \<le> days_before_year (year d)"
    using days_before_year_mono [OF y(1)] by (simp add: days_before_year_1)
  then show "1 \<le> toordinal d"
    unfolding toordinal_def ymd2ord_def
    using days_before_month_bounds(1) [OF m, of "year d"] dd by simp
  have "toordinal d \<le> days_before_year (year d) + (365 + (if is_leap (year d) then 1 else 0))"
    unfolding toordinal_def ymd2ord_def
    using days_before_month_bounds(2) [OF m, of "year d"] dd by simp
  also have "\<dots> = days_before_year (year d + 1)"
    by (simp add: days_before_year_Suc)
  also have "\<dots> \<le> days_before_year 10000"
    using y by (intro days_before_year_mono) simp
  finally show "toordinal d \<le> MAXORDINAL"
    by (simp add: days_before_year_10000 MAXORDINAL_def)
qed

lemma fromordinal_valid:
  assumes "1 \<le> n" "n \<le> MAXORDINAL"
  shows "\<exists>d. fromordinal n = Inr d \<and> valid_date d \<and> toordinal d = n"
proof -
  obtain y m d where o: "ord2ymd n = (y, m, d)" by (cases "ord2ymd n")
  from ord2ymd_correct [OF assms(1)] o assms(2)
  have "ymd2ord y m d = n" "check_date_fields y m d"
    by (simp_all add: check_date_fields_def MINYEAR_def)
  then show ?thesis
    by (simp add: fromordinal_def o date_new_def valid_date_def toordinal_def)
qed

lemma toordinal_inj:
  fixes d1 d2 :: date
  assumes "valid_date d1" "valid_date d2" "toordinal d1 = toordinal d2"
  shows "d1 = d2"
proof -
  have "year d1 = year d2 \<and> month d1 = month d2 \<and> day d1 = day d2"
    using assms
    by (intro ymd2ord_inj) (simp_all add: valid_date_def check_date_fields_def toordinal_def)
  then show ?thesis by simp
qed

lemma fromordinal_toordinal:
  fixes d :: date
  assumes "valid_date d"
  shows "fromordinal (toordinal d) = Inr d"
proof -
  from fromordinal_valid [OF toordinal_bounds [OF assms]] obtain d' where
    d': "fromordinal (toordinal d) = Inr d'" "valid_date d'" "toordinal d' = toordinal d"
    by blast
  with toordinal_inj [OF d'(2) assms d'(3)] show ?thesis by simp
qed

lemma prev_day_ordinal:
  assumes v: "valid_date d" and nz: "d \<noteq> date_min"
  shows "valid_date (prev_day d)" and "toordinal (prev_day d) = toordinal d - 1"
proof -
  from v have y: "1 \<le> year d" "year d \<le> 9999" and m: "1 \<le> month d" "month d \<le> 12"
    and dd: "1 \<le> day d" "day d \<le> days_in_month (year d) (month d)"
    by (simp_all add: valid_date_def check_date_fields_def MINYEAR_def MAXYEAR_def)
  consider (day) "1 < day d" | (month) "day d = 1" "1 < month d"
    | (year) "day d = 1" "month d = 1"
    using dd m by linarith
  then have "valid_date (prev_day d) \<and> toordinal (prev_day d) = toordinal d - 1"
  proof cases
    case day
    then show ?thesis
      using y m dd
      by (simp add: prev_day_def valid_date_def check_date_fields_def toordinal_def ymd2ord_def
          MINYEAR_def MAXYEAR_def)
  next
    case month
    have nx: "days_before_month (year d) (month d - 1 + 1)
        = days_before_month (year d) (month d - 1) + days_in_month (year d) (month d - 1)"
      using month m by (intro days_before_month_next) simp_all
    have "28 \<le> days_in_month (year d) (month d - 1)"
      using month m by (intro days_in_month_pos) simp_all
    then show ?thesis
      using y m month nx
      by (simp add: prev_day_def valid_date_def check_date_fields_def toordinal_def ymd2ord_def
          MINYEAR_def MAXYEAR_def)
  next
    case year
    have "year d \<noteq> 1"
    proof
      assume "year d = 1"
      with year have "d = date_min" by (simp add: date_min_def)
      with nz show False by simp
    qed
    with y have y2: "2 \<le> year d" by simp
    have st: "days_before_year (year d - 1 + 1)
        = days_before_year (year d - 1) + 365 + (if is_leap (year d - 1) then 1 else 0)"
      by (rule days_before_year_Suc)
    show ?thesis
      using y y2 year st
      by (simp add: prev_day_def valid_date_def check_date_fields_def toordinal_def ymd2ord_def
          MINYEAR_def MAXYEAR_def days_in_month_def days_before_month_def
          DAYS_IN_MONTH_def DAYS_BEFORE_MONTH_def)
  qed
  then show "valid_date (prev_day d)" and "toordinal (prev_day d) = toordinal d - 1"
    by simp_all
qed

lemma date_sub_one_day:
  assumes v: "valid_date d" and nz: "d \<noteq> date_min"
  shows "date_sub_days d 1 = Inr (prev_day d)"
proof -
  note p = prev_day_ordinal [OF v nz]
  have "0 < toordinal d - 1" "toordinal d - 1 \<le> MAXORDINAL"
    using toordinal_bounds [OF p(1)] p(2) by simp_all
  then have "date_sub_days d 1 = fromordinal (toordinal (prev_day d))"
    by (simp add: date_sub_days_def date_add_days_def p(2))
  then show ?thesis
    by (simp add: fromordinal_toordinal [OF p(1)])
qed

lemma date_sub_one_day_min: "date_sub_days date_min 1 = Inl OverflowError"
  by (simp add: date_sub_days_def date_add_days_def date_min_def toordinal_def ymd2ord_def
      days_before_year_def days_before_month_def DAYS_BEFORE_MONTH_def)

section \<open>Properties of the business-day resolver\<close>

lemma time_lt_six:
  assumes "valid_datetime t"
  shows "time_lt (time_of t) \<lparr>t_hour = 6, t_minute = 0, t_second = 0, t_microsecond = 0, t_fold = 0\<rparr>
           \<longleftrightarrow> time_of_day_us t < td_hours 6"
proof -
  from assms have r: "0 \<le> minute t" "minute t \<le> 59" "0 \<le> second t" "second t \<le> 59"
    "0 \<le> microsecond t" "microsecond t \<le> 999999"
    by (simp_all add: valid_datetime_def check_time_fields_def)
  have "time_lt (time_of t) \<lparr>t_hour = 6, t_minute = 0, t_second = 0, t_microsecond = 0, t_fold = 0\<rparr>
      \<longleftrightarrow> hour t < 6"
    using r by (auto simp: time_lt_def time_of_def)
  also have "\<dots> \<longleftrightarrow> time_of_day_us t < td_hours 6"
    unfolding time_of_day_us_def td_hours_def using r by auto
  finally show ?thesis .
qed

text \<open>
  Claim C2, as the code has it. For every timestamp \<open>t\<close>: when its time of day is
  strictly before 06:00 and its date is not the earliest date of the calendar,
  \<open>attendance_day_for t\<close> is the calendar date one day before the date of \<open>t\<close>, the
  date whose ordinal is one less; when its time of day is 06:00:00 or later, it is the
  date of \<open>t\<close>. Before 06:00 on 0001-01-01 there is no date to return and the library
  raises \<^verbatim>\<open>OverflowError\<close>. At 05:59:59 on 2024-03-10 the result is 2024-03-09, at
  06:00:00 it is 2024-03-10.
\<close>

theorem attendance_day_for_cutoff:
  assumes "valid_datetime t"
  shows "(time_of_day_us t < td_hours 6 \<and> date_of t \<noteq> date_min \<longrightarrow>
            attendance_day_for t = Inr (prev_day (date_of t))
            \<and> valid_date (prev_day (date_of t))
            \<and> toordinal (prev_day (date_of t)) = toordinal t - 1)
       \<and> (time_of_day_us t < td_hours 6 \<and> date_of t = date_min \<longrightarrow>
            attendance_day_for t = Inl OverflowError)
       \<and> (td_hours 6 \<le> time_of_day_us t \<longrightarrow> attendance_day_for t = Inr (date_of t))
       \<and> attendance_day_for (mk_datetime 2024 3 10 5 59 59 0 (Some PH_TZ))
            = Inr \<lparr>year = 2024, month = 3, day = 9\<rparr>
       \<and> attendance_day_for (mk_datetime 2024 3 10 6 0 0 0 (Some PH_TZ))
            = Inr \<lparr>year = 2024, month = 3, day = 10\<rparr>"
proof -
  have unf: "attendance_day_for u =
      (if time_of_day_us u < td_hours 6 then date_sub_days (date_of u) 1 else Inr (date_of u))"
    if "valid_datetime u" for u
    using time_lt_six [OF that]
    by (simp add: attendance_day_for_def time_new_def check_time_fields_def)
  have vd: "valid_date (date_of u)" if "valid_datetime u" for u
    using that by (simp add: valid_datetime_def valid_date_def date_of_def)
  have ord: "toordinal (date_of t) = toordinal t"
    by (simp add: toordinal_def date_of_def)
  have a: "attendance_day_for t = Inr (prev_day (date_of t))
      \<and> valid_date (prev_day (date_of t))
      \<and> toordinal (prev_day (date_of t)) = toordinal t - 1"
    if "time_of_day_us t < td_hours 6" "date_of t \<noteq> date_min"
    using that unf [OF assms] date_sub_one_day [OF vd [OF assms]]
      prev_day_ordinal [OF vd [OF assms]] ord by simp
  have b: "attendance_day_for t = Inl OverflowError"
    if "time_of_day_us t < td_hours 6" "date_of t = date_min"
    using that unf [OF assms] date_sub_one_day_min by simp
  have c: "attendance_day_for t = Inr (date_of t)" if "td_hours 6 \<le> time_of_day_us t"
    using that unf [OF assms] by simp
  let ?e1 = "mk_datetime 2024 3 10 5 59 59 0 (Some PH_TZ)"
  let ?e2 = "mk_datetime 2024 3 10 6 0 0 0 (Some PH_TZ)"
  have v1: "valid_datetime ?e1" and v2: "valid_datetime ?e2"
    by (simp_all add: validity_defs mk_datetime_def)
  have nm: "date_of ?e1 \<noteq> date_min"
    by (simp add: date_of_def mk_datetime_def date_min_def)
  have e1: "attendance_day_for ?e1 = Inr \<lparr>year = 2024, month = 3, day = 9\<rparr>"
    using unf [OF v1] date_sub_one_day [OF vd [OF v1] nm]
    by (simp add: time_of_day_us_def td_hours_def mk_datetime_def prev_day_def date_of_def)
  have e2: "attendance_day_for ?e2 = Inr \<lparr>year = 2024, month = 3, day = 10\<rparr>"
    using unf [OF v2]
    by (simp add: time_of_day_us_def td_hours_def mk_datetime_def date_of_def)
  show ?thesis using a b c e1 e2 by blast
qed

theorem attendance_day_for_cutoff_witness:
  "valid_datetime (mk_datetime 2024 3 10 5 59 59 999999 (Some PH_TZ)) \<and>
   time_of_day_us (mk_datetime 2024 3 10 5 59 59 999999 (Some PH_TZ)) < td_hours 6 \<and>
   date_of (mk_datetime 2024 3 10 5 59 59 999999 (Some PH_TZ)) \<noteq> date_min \<and>
   attendance_day_for (mk_datetime 2024 3 10 5 59 59 999999 (Some PH_TZ))
     = Inr \<lparr>year = 2024, month = 3, day = 9\<rparr> \<and>
   toordinal \<lparr>year = 2024, month = 3, day = 9\<rparr> = 738954"
proof -
  let ?t = "mk_datetime 2024 3 10 5 59 59 999999 (Some PH_TZ)"
  have v: "valid_datetime ?t"
    by (simp add: validity_defs mk_datetime_def)
  have lt: "time_of_day_us ?t < td_hours 6"
    by (simp add: time_of_day_us_def td_hours_def mk_datetime_def)
  have nm: "date_of ?t \<noteq> date_min"
    by (simp add: date_of_def mk_datetime_def date_min_def)
  have p: "prev_day (date_of ?t) = \<lparr>year = 2024, month = 3, day = 9\<rparr>"
    by (simp add: prev_day_def date_of_def mk_datetime_def)
  have o: "toordinal \<lparr>year = 2024, month = 3, day = 9\<rparr> = 738954"
    by (simp add: toordinal_def ymd2ord_def days_before_year_def days_before_month_def
        DAYS_BEFORE_MONTH_def is_leap_def)
  from attendance_day_for_cutoff [OF v] lt nm
  have "attendance_day_for ?t = Inr (prev_day (date_of ?t))" by blast
  with v lt nm p o show ?thesis by simp
qed

text \<open>
  Claim C2 as stated, for every zone-aware timestamp, fails at 05:00 on 0001-01-01: the
  date one day before does not exist in the library's calendar.
\<close>

theorem attendance_day_for_date_min_counterexample:
  "valid_datetime (mk_datetime 1 1 1 5 0 0 0 (Some PH_TZ)) \<and>
   aware (mk_datetime 1 1 1 5 0 0 0 (Some PH_TZ)) \<and>
   time_of_day_us (mk_datetime 1 1 1 5 0 0 0 (Some PH_TZ)) < td_hours 6 \<and>
   attendance_day_for (mk_datetime 1 1 1 5 0 0 0 (Some PH_TZ)) = Inl OverflowError"
  by (simp add: validity_defs mk_datetime_def aware_def time_of_day_us_def td_hours_def
      attendance_day_for_def time_new_def time_lt_def time_of_def date_of_def
      date_sub_days_def date_add_days_def toordinal_def ymd2ord_def days_before_year_def
      days_before_month_def DAYS_BEFORE_MONTH_def)

lemma fromordinal_example: "fromordinal 738954 = Inr \<lparr>year = 2024, month = 3, day = 9\<rparr>"
  by (simp add: fromordinal_def ord2ymd_def Let_def DI400Y_def DI100Y_def DI4Y_def
      DAYS_BEFORE_MONTH_def DAYS_IN_MONTH_def date_new_def check_date_fields_def
      MINYEAR_def MAXYEAR_def days_in_month_def is_leap_def)

section \<open>Properties of the attendance grouping\<close>

lemma group_step_eq:
  "group_step f g r =
     (case f (ph_ts r) of
        Inl e \<Rightarrow> Inl e
      | Inr tx \<Rightarrow>
          let inner0 = (case g (shift r) of None \<Rightarrow> Map.empty | Some i \<Rightarrow> i);
              b0 = (case inner0 (page_key r) of None \<Rightarrow> \<lparr>users = [], covers = []\<rparr> | Some b \<Rightarrow> b);
              e = \<lparr>name = user_name r, e_ph_ts = tx\<rparr>
          in Inr (g(shift r \<mapsto> inner0(page_key r \<mapsto>
                (if is_cover r then b0\<lparr>covers := covers b0 @ [e]\<rparr>
                 else b0\<lparr>users := users b0 @ [e]\<rparr>)))))"
  by (auto simp: group_step_def setdefault_def Let_def split: option.splits sum.splits)

lemma group_step_dom:
  assumes "group_step f g r = Inr g'"
  shows "dom g' = insert (shift r) (dom g)"
  using assms by (auto simp: group_step_eq Let_def split: sum.splits)

lemma group_rows_dom:
  assumes "group_rows f g rs = Inr g'"
  shows "dom g' = dom g \<union> shift ` set rs"
  using assms
proof (induction rs arbitrary: g)
  case Nil
  then show ?case by simp
next
  case (Cons r rs)
  then obtain g1 where s: "group_step f g r = Inr g1" and r: "group_rows f g1 rs = Inr g'"
    by (auto split: sum.splits)
  from Cons.IH [OF r] group_step_dom [OF s] show ?case by auto
qed

lemma group_step_other_shift:
  assumes "group_step f g r = Inr g'" "sh \<noteq> shift r"
  shows "g' sh = g sh"
  using assms by (auto simp: group_step_eq Let_def split: sum.splits)

lemma group_rows_other_shift:
  assumes "group_rows f g rs = Inr g'" "sh \<notin> shift ` set rs"
  shows "g' sh = g sh"
  using assms
proof (induction rs arbitrary: g)
  case Nil
  then show ?case by simp
next
  case (Cons r rs)
  then obtain g1 where s: "group_step f g r = Inr g1" and r: "group_rows f g1 rs = Inr g'"
    by (auto split: sum.splits)
  from Cons.prems(2) have "sh \<noteq> shift r" "sh \<notin> shift ` set rs" by auto
  with Cons.IH [OF r] group_step_other_shift [OF s] show ?case by simp
qed

lemma group_rows_returns:
  assumes "\<forall>r\<in>set rs. f (ph_ts r) = Inr (tx (ph_ts r))"
  shows "\<exists>g'. group_rows f g rs = Inr g'"
  using assms
proof (induction rs arbitrary: g)
  case Nil
  then show ?case by simp
next
  case (Cons r rs)
  then have "f (ph_ts r) = Inr (tx (ph_ts r))" by simp
  then obtain g1 where s: "group_step f g r = Inr g1"
    by (simp add: group_step_eq Let_def)
  with Cons show ?case by simp
qed

lemma group_step_users:
  assumes "group_step f g r = Inr g'" "f (ph_ts r) = Inr (tx (ph_ts r))"
  shows "bucket_users g' sh pk =
           bucket_users g sh pk @
           (if shift r = sh \<and> page_key r = pk \<and> \<not> is_cover r then [entry_of tx r] else [])"
    and "bucket_covers g' sh pk =
           bucket_covers g sh pk @
           (if shift r = sh \<and> page_key r = pk \<and> is_cover r then [entry_of tx r] else [])"
    and "has_bucket g' sh pk \<longleftrightarrow> has_bucket g sh pk \<or> (shift r = sh \<and> page_key r = pk)"
proof -
  define inner0 where "inner0 = (case g (shift r) of None \<Rightarrow> Map.empty | Some i \<Rightarrow> i)"
  define b0 where
    "b0 = (case inner0 (page_key r) of None \<Rightarrow> \<lparr>users = [], covers = []\<rparr> | Some b \<Rightarrow> b)"
  define b1 where
    "b1 = (if is_cover r then b0\<lparr>covers := covers b0 @ [entry_of tx r]\<rparr>
           else b0\<lparr>users := users b0 @ [entry_of tx r]\<rparr>)"
  have g': "g' = g(shift r \<mapsto> inner0(page_key r \<mapsto> b1))"
    using assms
    by (auto simp add: group_step_eq Let_def inner0_def b0_def b1_def entry_of_def)
  have old_u: "bucket_users g (shift r) (page_key r) = users b0"
    and old_c: "bucket_covers g (shift r) (page_key r) = covers b0"
    by (simp_all add: bucket_users_def bucket_covers_def inner0_def b0_def split: option.splits)
  have other_pk: "bucket_users g (shift r) pk = (case inner0 pk of None \<Rightarrow> [] | Some b \<Rightarrow> users b)"
    "bucket_covers g (shift r) pk = (case inner0 pk of None \<Rightarrow> [] | Some b \<Rightarrow> covers b)"
    "has_bucket g (shift r) pk = (case inner0 pk of None \<Rightarrow> False | Some b \<Rightarrow> True)"
    by (simp_all add: bucket_users_def bucket_covers_def has_bucket_def inner0_def
        split: option.splits)
  show "bucket_users g' sh pk =
           bucket_users g sh pk @
           (if shift r = sh \<and> page_key r = pk \<and> \<not> is_cover r then [entry_of tx r] else [])"
  proof (cases "sh = shift r")
    case False
    then show ?thesis by (auto simp: g' bucket_users_def)
  next
    case sh: True
    show ?thesis
    proof (cases "pk = page_key r")
      case False
      then show ?thesis using sh other_pk(1) by (auto simp: g' bucket_users_def)
    next
      case True
      then show ?thesis using sh old_u by (simp add: g' bucket_users_def b1_def)
    qed
  qed
  show "bucket_covers g' sh pk =
           bucket_covers g sh pk @
           (if shift r = sh \<and> page_key r = pk \<and> is_cover r then [entry_of tx r] else [])"
  proof (cases "sh = shift r")
    case False
    then show ?thesis by (auto simp: g' bucket_covers_def)
  next
    case sh: True
    show ?thesis
    proof (cases "pk = page_key r")
      case False
      then show ?thesis using sh other_pk(2) by (auto simp: g' bucket_covers_def)
    next
      case True
      then show ?thesis using sh old_c by (simp add: g' bucket_covers_def b1_def)
    qed
  qed
  show "has_bucket g' sh pk \<longleftrightarrow> has_bucket g sh pk \<or> (shift r = sh \<and> page_key r = pk)"
  proof (cases "sh = shift r")
    case False
    then show ?thesis by (auto simp: g' has_bucket_def)
  next
    case sh: True
    show ?thesis
    proof (cases "pk = page_key r")
      case False
      then show ?thesis using sh other_pk(3) by (auto simp: g' has_bucket_def)
    next
      case True
      then show ?thesis using sh by (simp add: g' has_bucket_def)
    qed
  qed
qed

lemma group_rows_users:
  assumes "group_rows f g rs = Inr g'" "\<forall>r\<in>set rs. f (ph_ts r) = Inr (tx (ph_ts r))"
  shows "bucket_users g' sh pk =
           bucket_users g sh pk @
           map (entry_of tx) (filter (\<lambda>r. shift r = sh \<and> page_key r = pk \<and> \<not> is_cover r) rs)"
    and "bucket_covers g' sh pk =
           bucket_covers g sh pk @
           map (entry_of tx) (filter (\<lambda>r. shift r = sh \<and> page_key r = pk \<and> is_cover r) rs)"
    and "has_bucket g' sh pk \<longleftrightarrow>
           has_bucket g sh pk \<or> (\<exists>r\<in>set rs. shift r = sh \<and> page_key r = pk)"
  using assms
proof (induction rs arbitrary: g)
  case Nil
  {
    case 1 then show ?case by simp
  next
    case 2 then show ?case by simp
  next
    case 3 then show ?case by simp
  }
next
  case (Cons r rs)
  {
    case 1
    then obtain g1 where s: "group_step f g r = Inr g1" and r: "group_rows f g1 rs = Inr g'"
      by (auto split: sum.splits)
    from 1 have fr: "f (ph_ts r) = Inr (tx (ph_ts r))"
      and fa: "\<forall>r\<in>set rs. f (ph_ts r) = Inr (tx (ph_ts r))" by simp_all
    show ?case
      using Cons.IH(1) [OF r fa] group_step_users(1) [where tx = tx and sh = sh and pk = pk, OF s fr] by simp
  next
    case 2
    then obtain g1 where s: "group_step f g r = Inr g1" and r: "group_rows f g1 rs = Inr g'"
      by (auto split: sum.splits)
    from 2 have fr: "f (ph_ts r) = Inr (tx (ph_ts r))"
      and fa: "\<forall>r\<in>set rs. f (ph_ts r) = Inr (tx (ph_ts r))" by simp_all
    show ?case
      using Cons.IH(2) [OF r fa] group_step_users(2) [where tx = tx and sh = sh and pk = pk, OF s fr] by simp
  next
    case 3
    then obtain g1 where s: "group_step f g r = Inr g1" and r: "group_rows f g1 rs = Inr g'"
      by (auto split: sum.splits)
    from 3 have fr: "f (ph_ts r) = Inr (tx (ph_ts r))"
      and fa: "\<forall>r\<in>set rs. f (ph_ts r) = Inr (tx (ph_ts r))" by simp_all
    show ?case
      using Cons.IH(3) [OF r fa] group_step_users(3) [where tx = tx and sh = sh and pk = pk, OF s fr] by auto
  }
qed


lemma group_rows_error:
  assumes "group_rows f g rs = Inl e"
  shows "\<exists>r\<in>set rs. f (ph_ts r) = Inl e"
  using assms
proof (induction rs arbitrary: g)
  case Nil
  then show ?case by simp
next
  case (Cons r rs)
  show ?case
  proof (cases "group_step f g r")
    case (Inl e')
    with Cons.prems have "e' = e" by simp
    with Inl have "f (ph_ts r) = Inl e"
      by (auto simp: group_step_eq Let_def split: sum.splits)
    then show ?thesis by simp
  next
    case (Inr g1)
    with Cons.prems have "group_rows f g1 rs = Inl e" by simp
    from Cons.IH [OF this] show ?thesis by auto
  qed
qed

lemma initial_grouped_dom: "dom initial_grouped = {''prime'', ''midshift'', ''closing''}"
  by (auto simp: initial_grouped_def)

lemma initial_grouped_buckets:
  "bucket_users initial_grouped sh pk = []" "bucket_covers initial_grouped sh pk = []"
  "\<not> has_bucket initial_grouped sh pk"
  by (simp_all add: initial_grouped_def bucket_users_def bucket_covers_def has_bucket_def)

text \<open>
  Claim C3, as the code has it. Whatever the rows, a mapping returned by the grouping
  has the keys \<^verbatim>\<open>prime\<close>, \<^verbatim>\<open>midshift\<close> and \<^verbatim>\<open>closing\<close>, also when a shift has no
  rows (its inner mapping is then empty), and its keys are exactly these three together
  with the shift labels of the rows: exactly the three when every row carries one of
  them. The grouping returns a mapping whenever every timestamp can be formatted, and
  otherwise fails with the error of the formatting.
\<close>

theorem attendance_group_keys:
  "(\<forall>g. attendance_group ts_iso rows = Inr g \<longrightarrow>
       dom g = {''prime'', ''midshift'', ''closing''} \<union> shift ` set rows
     \<and> {''prime'', ''midshift'', ''closing''} \<subseteq> dom g
     \<and> ((\<forall>r\<in>set rows. shift r \<in> {''prime'', ''midshift'', ''closing''}) \<longrightarrow>
          dom g = {''prime'', ''midshift'', ''closing''})
     \<and> (\<forall>sh\<in>{''prime'', ''midshift'', ''closing''}.
          sh \<notin> shift ` set rows \<longrightarrow> g sh = Some Map.empty))
   \<and> (\<forall>e. attendance_group ts_iso rows = Inl e \<longrightarrow> (\<exists>r\<in>set rows. ts_iso (ph_ts r) = Inl e))
   \<and> ((\<forall>r\<in>set rows. \<exists>s. ts_iso (ph_ts r) = Inr s) \<longrightarrow>
        (\<exists>g. attendance_group ts_iso rows = Inr g))"
proof (intro conjI allI impI)
  fix g assume g: "attendance_group ts_iso rows = Inr g"
  then have r: "group_rows ts_iso initial_grouped rows = Inr g"
    by (simp add: attendance_group_def)
  show d: "dom g = {''prime'', ''midshift'', ''closing''} \<union> shift ` set rows"
    using group_rows_dom [OF r] by (simp add: initial_grouped_dom)
  then show "{''prime'', ''midshift'', ''closing''} \<subseteq> dom g" by blast
  show "dom g = {''prime'', ''midshift'', ''closing''}"
    if "\<forall>r\<in>set rows. shift r \<in> {''prime'', ''midshift'', ''closing''}"
    using that d by blast
  show "\<forall>sh\<in>{''prime'', ''midshift'', ''closing''}. sh \<notin> shift ` set rows \<longrightarrow> g sh = Some Map.empty"
  proof (intro ballI impI)
    fix sh assume "sh \<in> {''prime'', ''midshift'', ''closing''}" "sh \<notin> shift ` set rows"
    with group_rows_other_shift [OF r, of sh] show "g sh = Some Map.empty"
      by (auto simp: initial_grouped_def)
  qed
next
  fix e assume "attendance_group ts_iso rows = Inl e"
  then show "\<exists>r\<in>set rows. ts_iso (ph_ts r) = Inl e"
    unfolding attendance_group_def by (rule group_rows_error)
next
  assume a: "\<forall>r\<in>set rows. \<exists>s. ts_iso (ph_ts r) = Inr s"
  define tx where "tx = (\<lambda>t. case ts_iso t of Inr s \<Rightarrow> s | Inl e \<Rightarrow> [])"
  have "\<forall>r\<in>set rows. ts_iso (ph_ts r) = Inr (tx (ph_ts r))"
    using a by (auto simp: tx_def)
  from group_rows_returns [OF this] show "\<exists>g. attendance_group ts_iso rows = Inr g"
    by (simp add: attendance_group_def)
qed

lemma iso_0805:
  "isoformat offsets_2024 (mk_datetime 2024 3 10 8 5 0 0 (Some PH_TZ)) = ''2024-03-10T08:05:00+08:00''"
  by (simp add: isoformat_def date_isoformat_def format_time_def format_offset_def utcoffset_def
      offsets_2024_def td_hours_def pad_def dec.simps mk_datetime_def Let_def)

lemma iso_0810:
  "isoformat offsets_2024 (mk_datetime 2024 3 10 8 10 0 0 (Some PH_TZ)) = ''2024-03-10T08:10:00+08:00''"
  by (simp add: isoformat_def date_isoformat_def format_time_def format_offset_def utcoffset_def
      offsets_2024_def td_hours_def pad_def dec.simps mk_datetime_def Let_def)

theorem attendance_group_keys_witness:
  "\<exists>g. attendance_group sample_ts_iso scenario_B_rows = Inr g
       \<and> dom g = {''prime'', ''midshift'', ''closing''}
       \<and> g ''midshift'' = Some Map.empty \<and> g ''closing'' = Some Map.empty"
proof -
  note k = attendance_group_keys [of sample_ts_iso scenario_B_rows]
  have sh: "shift ` set scenario_B_rows = {''prime''}"
    by (simp add: scenario_B_rows_def mk_clockin_def)
  have "\<exists>g. attendance_group sample_ts_iso scenario_B_rows = Inr g"
    by (rule k [THEN conjunct2, THEN conjunct2, rule_format]) (simp add: sample_ts_iso_def)
  then obtain g where g: "attendance_group sample_ts_iso scenario_B_rows = Inr g" ..
  note kg = k [THEN conjunct1, rule_format, OF g]
  have d: "dom g = {''prime'', ''midshift'', ''closing''}"
    using kg [THEN conjunct1] unfolding sh by simp
  have m: "g ''midshift'' = Some Map.empty"
    by (rule kg [THEN conjunct2, THEN conjunct2, THEN conjunct2, rule_format])
       (simp_all add: sh)
  have c: "g ''closing'' = Some Map.empty"
    by (rule kg [THEN conjunct2, THEN conjunct2, THEN conjunct2, rule_format])
       (simp_all add: sh)
  from g d m c show ?thesis by (intro exI [of _ g] conjI)
qed

text \<open>
  Claim C3 as stated, that no other key ever appears, fails for a row whose shift label
  is none of the three: \<^verbatim>\<open>grouped.setdefault(shift, {})\<close> adds the label as a fourth
  key.
\<close>

theorem attendance_group_unknown_shift_counterexample:
  "map_sum id dom (attendance_group sample_ts_iso night_rows)
     = Inr {''prime'', ''midshift'', ''closing'', ''night''}
   \<and> ''night'' \<notin> {''prime'', ''midshift'', ''closing''}"
  by (auto simp add: attendance_group_def night_rows_def mk_clockin_def group_step_def
      setdefault_def initial_grouped_def sample_ts_iso_def Let_def)

text \<open>
  Claim C5. For every list of rows in the order the store supplied them (whose
  timestamps can be formatted), and every shift and location key: the regular sequence
  of the bucket holds the entries of exactly the rows of that shift and key whose
  covering flag is false, the covering sequence those whose flag is true, each in the
  order of the rows; the bucket exists exactly when there is such a row; and the two
  sequences together have as many entries as there are rows of that shift and key, so
  every row has gone to exactly one of the two and no entry, which in the data model
  carries its covering flag, is in both. As name and timestamp alone, the two sequences
  have a value in common only when a regular row and a covering row of the bucket agree
  on both.
\<close>

theorem attendance_group_sequences:
  assumes "\<forall>r\<in>set rows. ts_iso (ph_ts r) = Inr (tx (ph_ts r))"
  shows "\<exists>g. attendance_group ts_iso rows = Inr g \<and>
           (\<forall>sh pk.
              bucket_users g sh pk =
                map (entry_of tx) (filter (\<lambda>r. shift r = sh \<and> page_key r = pk \<and> \<not> is_cover r) rows)
            \<and> bucket_covers g sh pk =
                map (entry_of tx) (filter (\<lambda>r. shift r = sh \<and> page_key r = pk \<and> is_cover r) rows)
            \<and> (has_bucket g sh pk \<longleftrightarrow> (\<exists>r\<in>set rows. shift r = sh \<and> page_key r = pk))
            \<and> length (bucket_users g sh pk) + length (bucket_covers g sh pk)
                = length (filter (\<lambda>r. shift r = sh \<and> page_key r = pk) rows)
            \<and> ((\<forall>r\<in>set rows. \<forall>r'\<in>set rows.
                    shift r = sh \<and> page_key r = pk \<and> shift r' = sh \<and> page_key r' = pk
                    \<and> \<not> is_cover r \<and> is_cover r' \<longrightarrow> entry_of tx r \<noteq> entry_of tx r') \<longrightarrow>
                 set (bucket_users g sh pk) \<inter> set (bucket_covers g sh pk) = {}))"
proof -
  from group_rows_returns [OF assms] obtain g where
    g: "group_rows ts_iso initial_grouped rows = Inr g" by blast
  note u = group_rows_users [OF g assms, unfolded initial_grouped_buckets, simplified]
  have len: "length (filter (\<lambda>r. shift r = sh \<and> page_key r = pk \<and> \<not> is_cover r) rows)
      + length (filter (\<lambda>r. shift r = sh \<and> page_key r = pk \<and> is_cover r) rows)
      = length (filter (\<lambda>r. shift r = sh \<and> page_key r = pk) rows)" for sh pk
    by (induction rows) auto
  have disj: "set (bucket_users g sh pk) \<inter> set (bucket_covers g sh pk) = {}"
    if "\<forall>r\<in>set rows. \<forall>r'\<in>set rows.
          shift r = sh \<and> page_key r = pk \<and> shift r' = sh \<and> page_key r' = pk
          \<and> \<not> is_cover r \<and> is_cover r' \<longrightarrow> entry_of tx r \<noteq> entry_of tx r'" for sh pk
    unfolding u(1) u(2) using that by auto
  show ?thesis
    using g u len disj by (simp add: attendance_group_def initial_grouped_buckets)
qed

theorem attendance_group_sequences_witness:
  "\<exists>g. attendance_group sample_ts_iso scenario_B_rows = Inr g
       \<and> bucket_users g ''prime'' ''L1'' = [\<lparr>name = ''Ana'', e_ph_ts = ''2024-03-10T08:05:00+08:00''\<rparr>]
       \<and> bucket_covers g ''prime'' ''L1'' = [\<lparr>name = ''Bo'', e_ph_ts = ''2024-03-10T08:10:00+08:00''\<rparr>]
       \<and> has_bucket g ''prime'' ''L1'' \<and> \<not> has_bucket g ''midshift'' ''L1''"
proof -
  have h: "\<forall>r\<in>set scenario_B_rows. sample_ts_iso (ph_ts r) = Inr (isoformat offsets_2024 (ph_ts r))"
    by (simp add: sample_ts_iso_def)
  from attendance_group_sequences [OF h] obtain g where
    g: "attendance_group sample_ts_iso scenario_B_rows = Inr g"
    and a: "\<forall>sh pk.
              bucket_users g sh pk =
                map (entry_of (isoformat offsets_2024))
                  (filter (\<lambda>r. shift r = sh \<and> page_key r = pk \<and> \<not> is_cover r) scenario_B_rows)
            \<and> bucket_covers g sh pk =
                map (entry_of (isoformat offsets_2024))
                  (filter (\<lambda>r. shift r = sh \<and> page_key r = pk \<and> is_cover r) scenario_B_rows)
            \<and> (has_bucket g sh pk \<longleftrightarrow> (\<exists>r\<in>set scenario_B_rows. shift r = sh \<and> page_key r = pk))
            \<and> length (bucket_users g sh pk) + length (bucket_covers g sh pk)
                = length (filter (\<lambda>r. shift r = sh \<and> page_key r = pk) scenario_B_rows)
            \<and> ((\<forall>r\<in>set scenario_B_rows. \<forall>r'\<in>set scenario_B_rows.
                    shift r = sh \<and> page_key r = pk \<and> shift r' = sh \<and> page_key r' = pk
                    \<and> \<not> is_cover r \<and> is_cover r' \<longrightarrow>
                    entry_of (isoformat offsets_2024) r \<noteq> entry_of (isoformat offsets_2024) r') \<longrightarrow>
                 set (bucket_users g sh pk) \<inter> set (bucket_covers g sh pk) = {})"
    by (elim exE conjE)
  note p = a [rule_format, of "''prime''" "''L1''"]
  note q = a [rule_format, of "''midshift''" "''L1''"]
  have u: "bucket_users g ''prime'' ''L1'' = [\<lparr>name = ''Ana'', e_ph_ts = ''2024-03-10T08:05:00+08:00''\<rparr>]"
    unfolding p [THEN conjunct1]
    by (simp add: scenario_B_rows_def mk_clockin_def entry_of_def iso_0805)
  have c: "bucket_covers g ''prime'' ''L1'' = [\<lparr>name = ''Bo'', e_ph_ts = ''2024-03-10T08:10:00+08:00''\<rparr>]"
    unfolding p [THEN conjunct2, THEN conjunct1]
    by (simp add: scenario_B_rows_def mk_clockin_def entry_of_def iso_0810)
  have b1: "has_bucket g ''prime'' ''L1''"
    unfolding p [THEN conjunct2, THEN conjunct2, THEN conjunct1]
    by (simp add: scenario_B_rows_def mk_clockin_def)
  have b2: "\<not> has_bucket g ''midshift'' ''L1''"
    unfolding q [THEN conjunct2, THEN conjunct2, THEN conjunct1]
    by (simp add: scenario_B_rows_def mk_clockin_def)
  from g u c b1 b2 show ?thesis by (intro exI [of _ g] conjI)
qed

section \<open>Properties of the sales aggregation\<close>

lemma sql_sum_coalesce:
  "coalesce (sql_sum xs) 0 = sum_list (map (\<lambda>x. case x of None \<Rightarrow> 0 | Some a \<Rightarrow> a) xs)"
proof -
  have "sum_list (List.map_filter id xs) = sum_list (map (\<lambda>x. case x of None \<Rightarrow> 0 | Some a \<Rightarrow> a) xs)"
    by (induction xs) (auto simp: List.map_filter_simps split: option.splits)
  moreover have "coalesce (sql_sum xs) 0 = sum_list (List.map_filter id xs)"
    by (cases "List.map_filter id xs") (simp_all add: sql_sum_def coalesce_def)
  ultimately show ?thesis by simp
qed

lemma group_total_eq:
  "coalesce (sql_sum (map amount (filter (\<lambda>r. page r = p) (filter (\<lambda>r. team r = tm \<and> ts r \<ge> start) tbl)))) 0
     = group_total tm start tbl p"
proof -
  have "coalesce (sql_sum (map amount (filter (\<lambda>r. page r = p) (filter (\<lambda>r. team r = tm \<and> ts r \<ge> start) tbl)))) 0
      = sum_list (map amount_or_zero (filter (\<lambda>r. selected tm start r \<and> page r = p) tbl))"
    by (simp add: sql_sum_coalesce comp_def amount_or_zero_def [abs_def] selected_def conj_commute)
  also have "\<dots> = group_total tm start tbl p"
    unfolding group_total_def by (rule sum_list_map_filter')
  finally show ?thesis .
qed

lemma sales_query_eq:
  "sales_query tm start tbl =
     sort_key (\<lambda>(p, total). - total)
       (map (\<lambda>p. (p, group_total tm start tbl p))
            (remdups (map page (filter (selected tm start) tbl))))"
proof -
  have "filter (\<lambda>r. team r = tm \<and> ts r \<ge> start) tbl = filter (selected tm start) tbl"
    by (simp add: selected_def [abs_def])
  then show ?thesis
    unfolding sales_query_def Let_def group_total_eq by simp
qed

lemma sorted_neg_desc:
  fixes xs :: "('a \<times> rat) list"
  shows "sorted (map (\<lambda>(p, total). - total) xs) \<longleftrightarrow> sorted_wrt (\<ge>) (map snd xs)"
  by (simp add: sorted_map sorted_wrt_map case_prod_unfold)

lemma sales_query_set:
  "set (sales_query tm start tbl) =
     (\<lambda>p. (p, group_total tm start tbl p)) ` page ` {r \<in> set tbl. selected tm start r}"
  by (auto simp add: sales_query_eq)

lemma sales_query_distinct: "distinct (map fst (sales_query tm start tbl))"
proof -
  let ?ps = "remdups (map page (filter (selected tm start) tbl))"
  let ?gs = "map (\<lambda>p. (p, group_total tm start tbl p)) ?ps"
  have "distinct (map fst ?gs)" by (simp add: comp_def)
  then have "distinct ?gs" "inj_on fst (set ?gs)"
    by (simp_all only: distinct_map)
  then have "distinct (sort_key (\<lambda>(p, total). - total) ?gs)"
    "inj_on fst (set (sort_key (\<lambda>(p, total). - total) ?gs))"
    by simp_all
  then show ?thesis
    unfolding sales_query_eq by (simp only: distinct_map)
qed

lemma sales_query_sorted: "sorted_wrt (\<ge>) (map snd (sales_query tm start tbl))"
  unfolding sorted_neg_desc [symmetric] sales_query_eq by (rule sorted_sort_key)


lemma group_total_nonneg:
  assumes "\<forall>r\<in>set tbl. selected tm start r \<longrightarrow> 0 \<le> amount_or_zero r"
  shows "0 \<le> group_total tm start tbl p"
  unfolding group_total_def using assms by (intro sum_list_nonneg) auto

lemma group_total_all_null:
  assumes "\<forall>r\<in>set tbl. selected tm start r \<and> page r = p \<longrightarrow> amount r = None"
  shows "group_total tm start tbl p = 0"
  using assms unfolding group_total_def
  by (induction tbl) (auto simp: amount_or_zero_def)

text \<open>
  Claim C4. For every team, boundary and table of transactions, the categories of the
  result are exactly the categories of the transactions of that team whose event time is
  at or after the boundary (the boundary itself included, nothing bounding it above);
  the total of each pair is the sum of the amounts of those transactions of its
  category; no category occurs twice; and the totals descend. The transactions A:10,
  A:5 and B:7 of team X since the boundary give A:15, B:7.
\<close>

theorem sales_query_aggregates:
  "fst ` set (sales_query tm start tbl) = {page r | r. r \<in> set tbl \<and> team r = tm \<and> start \<le> ts r}
   \<and> (\<forall>(p, total)\<in>set (sales_query tm start tbl). total = group_total tm start tbl p)
   \<and> distinct (map fst (sales_query tm start tbl))
   \<and> sorted_wrt (\<ge>) (map snd (sales_query tm start tbl))
   \<and> sales_query ''X'' 1000 scenario_A_sales = [(''A'', 15), (''B'', 7)]"
proof (intro conjI)
  show "fst ` set (sales_query tm start tbl)
      = {page r | r. r \<in> set tbl \<and> team r = tm \<and> start \<le> ts r}"
    unfolding sales_query_set by (auto simp: selected_def image_iff)
  show "\<forall>(p, total)\<in>set (sales_query tm start tbl). total = group_total tm start tbl p"
    unfolding sales_query_set by auto
  show "distinct (map fst (sales_query tm start tbl))"
    by (rule sales_query_distinct)
  show "sorted_wrt (\<ge>) (map snd (sales_query tm start tbl))"
    by (rule sales_query_sorted)
  show "sales_query ''X'' 1000 scenario_A_sales = [(''A'', 15), (''B'', 7)]"
    by (simp add: sales_query_def scenario_A_sales_def mk_sale_def sql_sum_def coalesce_def
        List.map_filter_simps Let_def)
qed

theorem sales_query_aggregates_witness:
  "sales_query ''X'' 1000 mixed_sales = [(''A'', 15), (''B'', 7)]
   \<and> fst ` set (sales_query ''X'' 1000 mixed_sales) = {''A'', ''B''}
   \<and> group_total ''X'' 1000 mixed_sales ''A'' = 15
   \<and> group_total ''X'' 1000 mixed_sales ''B'' = 7"
proof -
  note k = sales_query_aggregates [of "''X''" 1000 mixed_sales]
  have r: "sales_query ''X'' 1000 mixed_sales = [(''A'', 15), (''B'', 7)]"
    by (simp add: sales_query_def mixed_sales_def mk_sale_def sql_sum_def coalesce_def
        List.map_filter_simps Let_def)
  have m: "(''A'', 15) \<in> set (sales_query ''X'' 1000 mixed_sales)"
    "(''B'', 7) \<in> set (sales_query ''X'' 1000 mixed_sales)"
    unfolding r by simp_all
  have t: "\<forall>(p, total)\<in>set (sales_query ''X'' 1000 mixed_sales).
      total = group_total ''X'' 1000 mixed_sales p"
    using k by (elim conjE)
  from t m(1) have a: "15 = group_total ''X'' 1000 mixed_sales ''A''" by fast
  from t m(2) have b: "7 = group_total ''X'' 1000 mixed_sales ''B''" by fast
  have "fst ` set (sales_query ''X'' 1000 mixed_sales) = {''A'', ''B''}"
    unfolding r by simp
  with r a b show ?thesis by simp
qed

text \<open>
  Claim C8, as the code has it. For every team, boundary and table of transactions, no
  category label occurs in more than one pair of the result; every pair has a total,
  which is zero when all the selected amounts of its category are \<^verbatim>\<open>NULL\<close>; and no
  total is negative when no selected transaction has a negative amount.
\<close>

theorem sales_query_totals:
  "distinct (map fst (sales_query tm start tbl))
   \<and> ((\<forall>r\<in>set tbl. team r = tm \<and> start \<le> ts r \<longrightarrow> 0 \<le> amount_or_zero r) \<longrightarrow>
        (\<forall>(p, total)\<in>set (sales_query tm start tbl). 0 \<le> total))
   \<and> (\<forall>(p, total)\<in>set (sales_query tm start tbl).
        (\<forall>r\<in>set tbl. team r = tm \<and> start \<le> ts r \<and> page r = p \<longrightarrow> amount r = None) \<longrightarrow>
        total = 0)"
proof (intro conjI impI)
  show "distinct (map fst (sales_query tm start tbl))"
    by (rule sales_query_distinct)
  show "\<forall>(p, total)\<in>set (sales_query tm start tbl). 0 \<le> total"
    if "\<forall>r\<in>set tbl. team r = tm \<and> start \<le> ts r \<longrightarrow> 0 \<le> amount_or_zero r"
  proof -
    from that have "\<forall>r\<in>set tbl. selected tm start r \<longrightarrow> 0 \<le> amount_or_zero r"
      by (simp add: selected_def)
    from group_total_nonneg [OF this] show ?thesis
      unfolding sales_query_set by auto
  qed
  show "\<forall>(p, total)\<in>set (sales_query tm start tbl).
        (\<forall>r\<in>set tbl. team r = tm \<and> start \<le> ts r \<and> page r = p \<longrightarrow> amount r = None) \<longrightarrow>
        total = 0"
    unfolding sales_query_set
    using group_total_all_null [of tbl tm start] by (auto simp: selected_def)
qed

theorem sales_query_totals_witness:
  "sales_query ''X'' 1000 scenario_A_sales = [(''A'', 15), (''B'', 7)]
   \<and> (0::rat) \<le> 15 \<and> (0::rat) \<le> 7
   \<and> distinct (map fst (sales_query ''X'' 1000 scenario_A_sales))"
proof -
  note k = sales_query_totals [of "''X''" 1000 scenario_A_sales]
  have r: "sales_query ''X'' 1000 scenario_A_sales = [(''A'', 15), (''B'', 7)]"
    by (simp add: sales_query_def scenario_A_sales_def mk_sale_def sql_sum_def coalesce_def
        List.map_filter_simps Let_def)
  have h: "\<forall>r\<in>set scenario_A_sales. team r = ''X'' \<and> 1000 \<le> ts r \<longrightarrow> 0 \<le> amount_or_zero r"
    by (simp add: scenario_A_sales_def mk_sale_def amount_or_zero_def)
  have "\<forall>(p, total)\<in>set (sales_query ''X'' 1000 scenario_A_sales). 0 \<le> total"
    using k [THEN conjunct2, THEN conjunct1] h by (rule mp)
  then have "(0::rat) \<le> 15" "(0::rat) \<le> 7" unfolding r by simp_all
  moreover have "distinct (map fst (sales_query ''X'' 1000 scenario_A_sales))"
    by (rule k [THEN conjunct1])
  ultimately show ?thesis using r by simp
qed

text \<open>
  Claim C8 as stated, for every list of transaction rows, fails for a refund: the query
  sums whatever amounts the table holds.
\<close>

theorem sales_query_refund_counterexample:
  "sales_query ''X'' 1000 refund_sales = [(''A'', - 5)] \<and> (- 5 :: rat) < 0"
  by (simp add: sales_query_def refund_sales_def mk_sale_def sql_sum_def coalesce_def
      List.map_filter_simps Let_def)

section \<open>Properties of the HTTP surface\<close>

lemma handlers_unauthorized:
  assumes "k \<noteq> Some (INTERNAL_KEY w)"
  shows "teams w k = (Inl (HTTPException 401 ''Unauthorized''), [])"
    and "sales_shift w tm k = (Inl (HTTPException 401 ''Unauthorized''), [])"
    and "attendance_today w k = (Inl (HTTPException 401 ''Unauthorized''), [])"
  using assms
  by (simp_all add: teams_def sales_shift_def attendance_today_def require_internal_key_def)

text \<open>
  Claim C6, as the code has it. For every request whose key header is missing or
  differs from the configured secret: on \<^verbatim>\<open>/teams\<close>, on \<^verbatim>\<open>/attendance/today\<close> and on
  \<^verbatim>\<open>/sales/shift\<close> with a team parameter, the response is 401 with the detail
  \<^verbatim>\<open>Unauthorized\<close> and nothing has run: the clock has not been read and no store
  has been contacted. On \<^verbatim>\<open>/sales/shift\<close> without a team parameter the request is
  rejected with 422 before the handler, and with it the key check, runs. \<^verbatim>\<open>/health\<close>
  checks no key and answers 200.
\<close>

theorem unauthorized_before_any_logic:
  assumes "x_internal_key rq \<noteq> Some (INTERNAL_KEY w)"
  shows "(target rq = Teams \<or> target rq = AttendanceToday
            \<or> (target rq = SalesShift \<and> q_team rq \<noteq> None) \<longrightarrow>
          app w rq = (\<lparr>status = 401, body = JDict [''detail'' \<mapsto> JStr ''Unauthorized'']\<rparr>, []))
       \<and> (target rq = SalesShift \<and> q_team rq = None \<longrightarrow>
            status (fst (app w rq)) = 422 \<and> snd (app w rq) = [])
       \<and> (target rq = Health \<longrightarrow>
            app w rq = (\<lparr>status = 200, body = JDict [''ok'' \<mapsto> JBool True]\<rparr>, []))"
proof (intro conjI impI)
  assume "target rq = Teams \<or> target rq = AttendanceToday
            \<or> (target rq = SalesShift \<and> q_team rq \<noteq> None)"
  then have "endpoint w rq = (Inl (HTTPException 401 ''Unauthorized''), [])"
    using handlers_unauthorized [OF assms] by (auto simp: endpoint_def)
  then show "app w rq = (\<lparr>status = 401, body = JDict [''detail'' \<mapsto> JStr ''Unauthorized'']\<rparr>, [])"
    by (simp add: app_def respond_def)
next
  assume "target rq = SalesShift \<and> q_team rq = None"
  then show "status (fst (app w rq)) = 422" "snd (app w rq) = []"
    by (simp_all add: app_def endpoint_def respond_def)
next
  assume "target rq = Health"
  then show "app w rq = (\<lparr>status = 200, body = JDict [''ok'' \<mapsto> JBool True]\<rparr>, [])"
    by (simp add: app_def endpoint_def respond_def health_def)
qed

theorem unauthorized_before_any_logic_witness:
  "x_internal_key (mk_request AttendanceToday (Some ''guess'') None) \<noteq> Some (INTERNAL_KEY sample_world)
   \<and> status (fst (app sample_world (mk_request AttendanceToday (Some ''guess'') None))) = 401
   \<and> snd (app sample_world (mk_request AttendanceToday (Some ''guess'') None)) = []"
proof -
  have k: "x_internal_key (mk_request AttendanceToday (Some ''guess'') None)
      \<noteq> Some (INTERNAL_KEY sample_world)"
    by (simp add: mk_request_def sample_world_def)
  have t: "target (mk_request AttendanceToday (Some ''guess'') None) = AttendanceToday"
    by (simp add: mk_request_def)
  from unauthorized_before_any_logic [OF k, THEN conjunct1] t
  have "app sample_world (mk_request AttendanceToday (Some ''guess'') None)
      = (\<lparr>status = 401, body = JDict [''detail'' \<mapsto> JStr ''Unauthorized'']\<rparr>, [])"
    by simp
  with k show ?thesis by simp
qed

text \<open>
  Claim C6 as stated, for every endpoint, fails on \<^verbatim>\<open>/health\<close>, whose handler takes
  no key and answers 200 to a request without one; and a request to
  \<^verbatim>\<open>/sales/shift\<close> with neither key nor team is answered 422, not 401.
\<close>

theorem health_without_key_counterexample:
  "x_internal_key (mk_request Health None None) \<noteq> Some (INTERNAL_KEY sample_world)
   \<and> status (fst (app sample_world (mk_request Health None None))) = 200
   \<and> x_internal_key (mk_request SalesShift None None) \<noteq> Some (INTERNAL_KEY sample_world)
   \<and> status (fst (app sample_world (mk_request SalesShift None None))) = 422"
  by (simp add: mk_request_def app_def endpoint_def respond_def health_def)

text \<open>
  Claim C9. Every request to \<^verbatim>\<open>/sales/shift\<close> without the team parameter, whatever
  key it carries and so also with a valid one, is answered with the client error 422,
  and nothing has run: no connection to a store has been opened and no query executed.
\<close>

theorem missing_team_rejected:
  assumes "target rq = SalesShift" and "q_team rq = None"
  shows "status (fst (app w rq)) = 422
       \<and> client_error (status (fst (app w rq)))
       \<and> snd (app w rq) = []
       \<and> Connect SalesDB \<notin> set (snd (app w rq)) \<and> Execute SalesDB \<notin> set (snd (app w rq))"
  using assms by (simp add: app_def endpoint_def respond_def client_error_def)

theorem missing_team_rejected_witness:
  "x_internal_key (mk_request SalesShift (Some ''secret'') None) = Some (INTERNAL_KEY sample_world)
   \<and> q_team (mk_request SalesShift (Some ''secret'') None) = None
   \<and> status (fst (app sample_world (mk_request SalesShift (Some ''secret'') None))) = 422
   \<and> snd (app sample_world (mk_request SalesShift (Some ''secret'') None)) = []"
proof -
  have a: "target (mk_request SalesShift (Some ''secret'') None) = SalesShift"
    and b: "q_team (mk_request SalesShift (Some ''secret'') None) = None"
    by (simp_all add: mk_request_def)
  have c: "x_internal_key (mk_request SalesShift (Some ''secret'') None)
      = Some (INTERNAL_KEY sample_world)"
    by (simp add: mk_request_def sample_world_def)
  from missing_team_rejected [OF a b, of sample_world] b c show ?thesis by simp
qed

subsection \<open>The text of a timestamp\<close>

lemma digit_nth: "n < 10 \<Longrightarrow> is_digit (''0123456789'' ! n)"
proof -
  assume "n < 10"
  then have "''0123456789'' ! n \<in> set ''0123456789''"
    by (intro nth_mem) simp
  then show ?thesis unfolding is_digit_def .
qed

lemma dec_digits: "all_digits (dec n)"
proof (induction n rule: dec.induct)
  case (1 n)
  show ?case
  proof (cases "n < 10")
    case True
    then show ?thesis
      by (subst dec.simps) (simp add: all_digits_def digit_nth)
  next
    case False
    with 1 have "all_digits (dec (n div 10))" by simp
    moreover have "is_digit (''0123456789'' ! (n mod 10))"
      by (rule digit_nth) simp
    ultimately show ?thesis using False
      by (subst dec.simps) (simp add: all_digits_def)
  qed
qed

lemma dec_length: "n < 10 ^ k \<Longrightarrow> 0 < k \<Longrightarrow> length (dec n) \<le> k"
proof (induction n arbitrary: k rule: dec.induct)
  case (1 n)
  show ?case
  proof (cases "n < 10")
    case True
    then show ?thesis using "1.prems" by (subst dec.simps) simp
  next
    case False
    with "1.prems" have k: "1 < k" by (cases "k = 1") auto
    then obtain k' where k': "k = Suc k'" "0 < k'" by (cases k) auto
    with "1.prems" have "n div 10 < 10 ^ k'"
      by (simp add: less_mult_imp_div_less mult.commute)
    from "1.IH" [OF False this k'(2)] show ?thesis using False k'
      by (subst dec.simps) simp
  qed
qed

lemma all_digits_append: "all_digits (xs @ ys) \<longleftrightarrow> all_digits xs \<and> all_digits ys"
  by (simp add: all_digits_def)

lemma all_digits_zeros: "all_digits (replicate n (CHR ''0''))"
  by (simp add: all_digits_def is_digit_def list_all_iff)

lemma pad_props:
  assumes "0 \<le> n" "n < 10 ^ k" "0 < k"
  shows "length (pad k n) = k" and "all_digits (pad k n)"
proof -
  have "nat n < 10 ^ k" using assms by (simp add: nat_less_iff)
  from dec_length [OF this assms(3)] show "length (pad k n) = k"
    by (simp add: pad_def Let_def)
  show "all_digits (pad k n)"
    by (simp add: pad_def Let_def all_digits_append all_digits_zeros dec_digits)
qed

lemma pad2:
  assumes "0 \<le> n" "n \<le> 99"
  shows "length (pad 2 n) = 2" and "all_digits (pad 2 n)"
  using pad_props [of n 2] assms by simp_all

lemma date_isoformat_shape:
  assumes "valid_date d"
  shows "date_text (date_isoformat d)" and "length (date_isoformat d) = 10"
proof -
  from assms have y: "0 \<le> year d" "year d < 10 ^ 4" and m: "0 \<le> month d" "month d \<le> 99"
    and dd: "0 \<le> day d" "day d \<le> 99"
    using days_in_month_pos(2) [of "month d" "year d"]
    by (simp_all add: valid_date_def check_date_fields_def MINYEAR_def MAXYEAR_def)
  note py = pad_props [OF y, simplified] and pm = pad2 [OF m] and pd = pad2 [OF dd]
  show "length (date_isoformat d) = 10"
    by (simp add: date_isoformat_def py pm pd)
  show "date_text (date_isoformat d)"
    by (simp add: date_text_def date_isoformat_def py pm pd nth_append)
qed

lemma format_time_shape:
  assumes "check_time_fields h mi s us f"
  shows "time_text (format_time h mi s us)"
    and "length (format_time h mi s us) = (if us \<noteq> 0 then 15 else 8)"
proof -
  from assms have h: "0 \<le> h" "h \<le> 99" and mi: "0 \<le> mi" "mi \<le> 99" and s: "0 \<le> s" "s \<le> 99"
    and us: "0 \<le> us" "us < 10 ^ 6"
    by (simp_all add: check_time_fields_def)
  note ph = pad2 [OF h] and pm = pad2 [OF mi] and ps = pad2 [OF s]
    and pu = pad_props [OF us, simplified]
  show "length (format_time h mi s us) = (if us \<noteq> 0 then 15 else 8)"
    by (simp add: format_time_def ph pm ps pu)
  show "time_text (format_time h mi s us)"
    by (simp add: time_text_def format_time_def ph pm ps pu nth_append)
qed


lemma format_offset_shape:
  assumes "- td_hours 24 < d" "d < td_hours 24"
  shows "offset_text (format_offset (Some d))"
proof -
  define a where "a = (if d < 0 then - d else d)"
  define hh where "hh = a div 3600000000"
  define r where "r = a mod 3600000000"
  define mm where "mm = r div 60000000"
  define ss where "ss = r mod 60000000"
  have a: "0 \<le> a" "a < 86400000000"
    using assms by (auto simp: a_def td_hours_def)
  have hh: "0 \<le> hh" "hh \<le> 99" using a unfolding hh_def by simp_all
  have r: "0 \<le> r" "r < 3600000000" unfolding r_def by simp_all
  have mm: "0 \<le> mm" "mm \<le> 99" using r unfolding mm_def by simp_all
  have ss: "0 \<le> ss" "ss < 60000000" unfolding ss_def by simp_all
  have sec: "0 \<le> ss div 1000000" "ss div 1000000 \<le> 99" using ss by simp_all
  have us: "0 \<le> ss mod 1000000" "ss mod 1000000 < 10 ^ 6" by simp_all
  note ph = pad2 [OF hh] and pm = pad2 [OF mm] and ps = pad2 [OF sec]
    and pu = pad_props [OF us, simplified]
  have eq: "format_offset (Some d) =
      (if d < 0 then ''-'' else ''+'') @ pad 2 hh @ '':'' @ pad 2 mm @
      (if ss \<noteq> 0
       then '':'' @ pad 2 (ss div 1000000) @
            (if ss mod 1000000 \<noteq> 0 then ''.'' @ pad 6 (ss mod 1000000) else [])
       else [])"
    by (simp add: format_offset_def Let_def a_def hh_def r_def mm_def ss_def)
  show ?thesis
    unfolding eq
    by (simp add: offset_text_def ph pm ps pu nth_append)
qed

lemma isoformat_shape:
  assumes v: "valid_datetime dt" and z: "tzinfo dt = Some zn"
    and o: "- td_hours 24 < off (Some zn) dt" "off (Some zn) dt < td_hours 24"
  shows "iso8601_with_offset (isoformat off dt)"
proof -
  let ?d = "date_isoformat dt"
  let ?t = "format_time (hour dt) (minute dt) (second dt) (microsecond dt)"
  let ?z = "format_offset (Some (off (Some zn) dt))"
  have eq: "isoformat off dt = ?d @ ''T'' @ ?t @ ?z"
    by (simp add: isoformat_def utcoffset_def z)
  from v have vd: "valid_date dt"
    and vt: "check_time_fields (hour dt) (minute dt) (second dt) (microsecond dt) (dt_fold dt)"
    by (simp_all add: valid_datetime_def)
  note d = date_isoformat_shape [OF vd]
  note t = format_time_shape [OF vt]
  note zz = format_offset_shape [OF o]
  have take10: "take 10 (isoformat off dt) = ?d" and nth10: "isoformat off dt ! 10 = CHR ''T''"
    and drop11: "drop 11 (isoformat off dt) = ?t @ ?z"
    unfolding eq using d(2) by (simp_all add: nth_append)
  show ?thesis
  proof (cases "microsecond dt = 0")
    case True
    with t(2) have "length ?t = 8" by simp
    then have "take 8 (?t @ ?z) = ?t" "drop 8 (?t @ ?z) = ?z" by simp_all
    then show ?thesis
      unfolding iso8601_with_offset_def take10 nth10 drop11 Let_def
      using d(1) t(1) zz by simp
  next
    case False
    with t(2) have "length ?t = 15" by simp
    then have "take 15 (?t @ ?z) = ?t" "drop 15 (?t @ ?z) = ?z" by simp_all
    then show ?thesis
      unfolding iso8601_with_offset_def take10 nth10 drop11 Let_def
      using d(1) t(1) zz by simp
  qed
qed

subsection \<open>The response of the sales endpoint\<close>

lemma sales_shift_cases:
  "sales_shift w tm k = (Inl (HTTPException 401 ''Unauthorized''), [])
   \<or> (\<exists>e. e \<in> {ValueError, OverflowError, OperationalError} \<and> fst (sales_shift w tm k) = Inl e)
   \<or> (\<exists>start sdb boundary.
        k = Some (INTERNAL_KEY w) \<and> shift_start_ph (now_ph w) = Inr start
        \<and> sales_store w = Some sdb \<and> astimezone_utc (tz w) start = Inr boundary
        \<and> sales_shift w tm k =
            (Inr (JDict
               [''team'' \<mapsto> JStr tm,
                ''shift_start_ph'' \<mapsto> JStr (isoformat (tz w) start),
                ''updated_ph'' \<mapsto> JStr (isoformat (tz w) (now_ph w)),
                ''rows'' \<mapsto> JList (map sales_row_json (sales_query tm boundary (sales_rows sdb)))]),
             [ClockRead, Connect SalesDB, Execute SalesDB]))"
proof (cases "k = Some (INTERNAL_KEY w)")
  case False
  then show ?thesis by (simp add: sales_shift_def require_internal_key_def)
next
  case k: True
  show ?thesis
  proof (cases "shift_start_ph (now_ph w)")
    case (Inl e)
    then have "e = ValueError"
      by (auto simp: shift_start_ph_def datetime_new_def Let_def split: if_splits)
    with Inl k show ?thesis by (simp add: sales_shift_def require_internal_key_def)
  next
    case start: (Inr start)
    show ?thesis
    proof (cases "sales_store w")
      case None
      with start k show ?thesis by (simp add: sales_shift_def require_internal_key_def)
    next
      case sdb: (Some sdb)
      show ?thesis
      proof (cases "astimezone_utc (tz w) start")
        case (Inl e)
        then have "e = OverflowError"
          by (auto simp: astimezone_utc_def Let_def split: if_splits)
        with Inl sdb start k show ?thesis
          by (simp add: sales_shift_def require_internal_key_def)
      next
        case (Inr boundary)
        with sdb start k show ?thesis
          by (simp add: sales_shift_def require_internal_key_def Let_def)
      qed
    qed
  qed
qed

lemma sales_row_json_shape:
  "\<exists>rm. sales_row_json r = JDict rm \<and> dom rm = {''page'', ''total''}
        \<and> rm ''page'' = Some (JStr (fst r)) \<and> rm ''total'' = Some (JNum (snd r))"
  by (auto simp: sales_row_json_def)

text \<open>
  Claim C7, as the code has it. Every request to \<^verbatim>\<open>/sales/shift\<close> answered with 200
  carried the key and a team, and its response is an object with exactly the keys
  \<^verbatim>\<open>team\<close>, \<^verbatim>\<open>shift_start_ph\<close>, \<^verbatim>\<open>updated_ph\<close> and \<^verbatim>\<open>rows\<close>: the team as
  given, the \<open>isoformat\<close> of the shift start and of the clock reading, both in the
  Manila zone, and the rows of the query as objects with exactly the keys \<^verbatim>\<open>page\<close>
  and \<^verbatim>\<open>total\<close>. With a well-formed clock and zone database both texts are local ISO
  8601 texts with offset.
\<close>

theorem sales_shift_response_shape:
  assumes "target rq = SalesShift" and "status (fst (app w rq)) = 200"
  shows "\<exists>tm start boundary sdb m.
           q_team rq = Some tm \<and> x_internal_key rq = Some (INTERNAL_KEY w)
         \<and> shift_start_ph (now_ph w) = Inr start \<and> sales_store w = Some sdb
         \<and> astimezone_utc (tz w) start = Inr boundary
         \<and> app w rq = (\<lparr>status = 200, body = JDict m\<rparr>, [ClockRead, Connect SalesDB, Execute SalesDB])
         \<and> dom m = {''team'', ''shift_start_ph'', ''updated_ph'', ''rows''}
         \<and> m ''team'' = Some (JStr tm)
         \<and> m ''shift_start_ph'' = Some (JStr (isoformat (tz w) start))
         \<and> m ''updated_ph'' = Some (JStr (isoformat (tz w) (now_ph w)))
         \<and> m ''rows'' = Some (JList (map sales_row_json (sales_query tm boundary (sales_rows sdb))))
         \<and> (\<forall>j\<in>set (map sales_row_json (sales_query tm boundary (sales_rows sdb))).
               \<exists>rm p t. j = JDict rm \<and> dom rm = {''page'', ''total''}
                 \<and> rm ''page'' = Some (JStr p) \<and> rm ''total'' = Some (JNum t))
         \<and> (wf_world w \<longrightarrow>
               iso8601_with_offset (isoformat (tz w) start)
             \<and> iso8601_with_offset (isoformat (tz w) (now_ph w)))"
proof -
  obtain tm where tm: "q_team rq = Some tm"
    using assms by (cases "q_team rq") (auto simp: app_def endpoint_def respond_def)
  have ep: "endpoint w rq = sales_shift w tm (x_internal_key rq)"
    using assms(1) tm by (simp add: endpoint_def)
  have st: "status (respond (fst (sales_shift w tm (x_internal_key rq)))) = 200"
    using assms(2) unfolding app_def ep by (simp add: case_prod_unfold)
  from sales_shift_cases [of w tm "x_internal_key rq"]
  obtain start sdb boundary where
    k: "x_internal_key rq = Some (INTERNAL_KEY w)"
    and start: "shift_start_ph (now_ph w) = Inr start"
    and sdb: "sales_store w = Some sdb"
    and bd: "astimezone_utc (tz w) start = Inr boundary"
    and res: "sales_shift w tm (x_internal_key rq) =
            (Inr (JDict
               [''team'' \<mapsto> JStr tm,
                ''shift_start_ph'' \<mapsto> JStr (isoformat (tz w) start),
                ''updated_ph'' \<mapsto> JStr (isoformat (tz w) (now_ph w)),
                ''rows'' \<mapsto> JList (map sales_row_json (sales_query tm boundary (sales_rows sdb)))]),
             [ClockRead, Connect SalesDB, Execute SalesDB])"
    using st by (auto simp: respond_def)
  let ?m = "[''team'' \<mapsto> JStr tm,
                ''shift_start_ph'' \<mapsto> JStr (isoformat (tz w) start),
                ''updated_ph'' \<mapsto> JStr (isoformat (tz w) (now_ph w)),
                ''rows'' \<mapsto> JList (map sales_row_json (sales_query tm boundary (sales_rows sdb)))]"
  have app: "app w rq = (\<lparr>status = 200, body = JDict ?m\<rparr>, [ClockRead, Connect SalesDB, Execute SalesDB])"
    unfolding app_def ep res by (simp add: respond_def)
  have dom: "dom ?m = {''team'', ''shift_start_ph'', ''updated_ph'', ''rows''}"
    by auto
  have vals: "?m ''team'' = Some (JStr tm)"
    "?m ''shift_start_ph'' = Some (JStr (isoformat (tz w) start))"
    "?m ''updated_ph'' = Some (JStr (isoformat (tz w) (now_ph w)))"
    "?m ''rows'' = Some (JList (map sales_row_json (sales_query tm boundary (sales_rows sdb))))"
    by simp_all
  have rows: "\<forall>j\<in>set (map sales_row_json (sales_query tm boundary (sales_rows sdb))).
               \<exists>rm p t. j = JDict rm \<and> dom rm = {''page'', ''total''}
                 \<and> rm ''page'' = Some (JStr p) \<and> rm ''total'' = Some (JNum t)"
    using sales_row_json_shape by fastforce
  have iso: "iso8601_with_offset (isoformat (tz w) start)
             \<and> iso8601_with_offset (isoformat (tz w) (now_ph w))" if wf: "wf_world w"
  proof -
    from wf have vn: "valid_datetime (now_ph w)"
      by (simp add: wf_world_def now_ph_def valid_datetime_def valid_date_def)
    have zn: "tzinfo (now_ph w) = Some PH_TZ" by (simp add: now_ph_def)
    from wf have o: "- td_hours 24 < tz w (Some PH_TZ) dt" "tz w (Some PH_TZ) dt < td_hours 24" for dt
      by (simp_all add: wf_world_def)
    from start have s: "valid_datetime start" "tzinfo start = Some PH_TZ"
      unfolding shift_start_ph_value [OF vn] using vn
      by (auto simp: valid_datetime_def valid_date_def check_time_fields_def)
    from isoformat_shape [where off = "tz w", OF s o]
      isoformat_shape [where off = "tz w", OF vn zn o]
    show ?thesis by simp
  qed
  show ?thesis
    using tm k start sdb bd app dom vals rows iso
    by (intro exI [of _ tm] exI [of _ start] exI [of _ boundary] exI [of _ sdb] exI [of _ ?m])
       (intro conjI impI; assumption?; blast?)
qed

lemma sample_boundary:
  "astimezone_utc offsets_2024 (mk_datetime 2024 3 10 8 0 0 0 (Some PH_TZ)) = Inr 63845625600000000"
  by (simp add: astimezone_utc_def wall_us_def offsets_2024_def td_hours_def MAXORDINAL_def
      Let_def dt_eval_defs)

lemma sample_now: "now_ph sample_world = mk_datetime 2024 3 10 9 30 0 0 (Some PH_TZ)"
  by (simp add: now_ph_def sample_world_def mk_datetime_def)

lemma sample_start:
  "shift_start_ph (mk_datetime 2024 3 10 9 30 0 0 (Some PH_TZ))
     = Inr (mk_datetime 2024 3 10 8 0 0 0 (Some PH_TZ))"
  by (simp add: shift_start_ph_def datetime_new_def date_of_def Let_def validity_defs
      mk_datetime_def)

lemma sample_rows:
  "sales_query ''X'' 63845625600000000
     (map (\<lambda>r. r\<lparr>ts := ts r + 63845625599999000\<rparr>) scenario_A_sales) = [(''A'', 15), (''B'', 7)]"
  by (simp add: sales_query_def scenario_A_sales_def mk_sale_def sql_sum_def coalesce_def
      List.map_filter_simps Let_def)

lemma iso_0800:
  "isoformat offsets_2024 (mk_datetime 2024 3 10 8 0 0 0 (Some PH_TZ)) = ''2024-03-10T08:00:00+08:00''"
  by (simp add: isoformat_def date_isoformat_def format_time_def format_offset_def utcoffset_def
      offsets_2024_def td_hours_def pad_def dec.simps mk_datetime_def Let_def)

lemma iso_0930:
  "isoformat offsets_2024 (mk_datetime 2024 3 10 9 30 0 0 (Some PH_TZ)) = ''2024-03-10T09:30:00+08:00''"
  by (simp add: isoformat_def date_isoformat_def format_time_def format_offset_def utcoffset_def
      offsets_2024_def td_hours_def pad_def dec.simps mk_datetime_def Let_def)

lemma sample_sales_shift:
  "app sample_world (mk_request SalesShift (Some ''secret'') (Some ''X'')) =
     (\<lparr>status = 200,
       body = JDict [''team'' \<mapsto> JStr ''X'',
                     ''shift_start_ph'' \<mapsto> JStr ''2024-03-10T08:00:00+08:00'',
                     ''updated_ph'' \<mapsto> JStr ''2024-03-10T09:30:00+08:00'',
                     ''rows'' \<mapsto> JList [sales_row_json (''A'', 15), sales_row_json (''B'', 7)]]\<rparr>,
      [ClockRead, Connect SalesDB, Execute SalesDB])"
proof -
  have a: "sales_store sample_world = Some \<lparr>teams_names = [''X'', ''Y''],
      sales_rows = map (\<lambda>r. r\<lparr>ts := ts r + 63845625599999000\<rparr>) scenario_A_sales\<rparr>"
    and b: "tz sample_world = offsets_2024" and c: "INTERNAL_KEY sample_world = ''secret''"
    by (simp_all add: sample_world_def)
  show ?thesis
    by (simp add: app_def endpoint_def mk_request_def sales_shift_def require_internal_key_def
        respond_def a b c sample_now sample_start sample_boundary sample_rows iso_0800 iso_0930
        Let_def)
qed

theorem sales_shift_response_shape_witness:
  "target (mk_request SalesShift (Some ''secret'') (Some ''X'')) = SalesShift
   \<and> status (fst (app sample_world (mk_request SalesShift (Some ''secret'') (Some ''X'')))) = 200
   \<and> wf_world sample_world
   \<and> (\<exists>m. body (fst (app sample_world (mk_request SalesShift (Some ''secret'') (Some ''X''))))
             = JDict m
          \<and> dom m = {''team'', ''shift_start_ph'', ''updated_ph'', ''rows''}
          \<and> m ''shift_start_ph'' = Some (JStr ''2024-03-10T08:00:00+08:00''))
   \<and> iso8601_with_offset ''2024-03-10T08:00:00+08:00''"
proof -
  let ?rq = "mk_request SalesShift (Some ''secret'') (Some ''X'')"
  have t: "target ?rq = SalesShift" by (simp add: mk_request_def)
  have s: "status (fst (app sample_world ?rq)) = 200"
    by (simp add: sample_sales_shift)
  have wf: "wf_world sample_world"
    by (simp add: wf_world_def sample_world_def validity_defs mk_datetime_def offsets_2024_def
        td_hours_def)
  have st: "shift_start_ph (now_ph sample_world) = Inr (mk_datetime 2024 3 10 8 0 0 0 (Some PH_TZ))"
    by (simp add: sample_now sample_start)
  have tzw: "tz sample_world = offsets_2024" by (simp add: sample_world_def)
  from sales_shift_response_shape [OF t s] obtain start m where
    a: "shift_start_ph (now_ph sample_world) = Inr start"
    and b: "app sample_world ?rq
        = (\<lparr>status = 200, body = JDict m\<rparr>, [ClockRead, Connect SalesDB, Execute SalesDB])"
    and d: "dom m = {''team'', ''shift_start_ph'', ''updated_ph'', ''rows''}"
    and v: "m ''shift_start_ph'' = Some (JStr (isoformat (tz sample_world) start))"
    and i: "wf_world sample_world \<longrightarrow>
               iso8601_with_offset (isoformat (tz sample_world) start)
             \<and> iso8601_with_offset (isoformat (tz sample_world) (now_ph sample_world))"
    by (elim exE conjE)
  from a st have start: "start = mk_datetime 2024 3 10 8 0 0 0 (Some PH_TZ)" by simp
  have v': "m ''shift_start_ph'' = Some (JStr ''2024-03-10T08:00:00+08:00'')"
    using v unfolding start tzw iso_0800 .
  have i': "iso8601_with_offset ''2024-03-10T08:00:00+08:00''"
    using i wf unfolding start tzw iso_0800 by simp
  have "body (fst (app sample_world ?rq)) = JDict m" using b by simp
  with d v' have "\<exists>m. body (fst (app sample_world ?rq)) = JDict m
          \<and> dom m = {''team'', ''shift_start_ph'', ''updated_ph'', ''rows''}
          \<and> m ''shift_start_ph'' = Some (JStr ''2024-03-10T08:00:00+08:00'')"
    by (intro exI [of _ m] conjI)
  with t s wf i' show ?thesis by (intro conjI)
qed

text \<open>
  Claim C7 as stated names keys the response does not have: there is no key
  \<^verbatim>\<open>shift_start\<close> or \<^verbatim>\<open>updated\<close>, and a row has no key \<^verbatim>\<open>category\<close>; the code
  writes \<^verbatim>\<open>shift_start_ph\<close>, \<^verbatim>\<open>updated_ph\<close> and \<^verbatim>\<open>page\<close>.
\<close>

theorem sales_shift_key_names_counterexample:
  "status (fst (app sample_world (mk_request SalesShift (Some ''secret'') (Some ''X'')))) = 200
   \<and> json_get (body (fst (app sample_world (mk_request SalesShift (Some ''secret'') (Some ''X''))))) ''shift_start'' = None
   \<and> json_get (body (fst (app sample_world (mk_request SalesShift (Some ''secret'') (Some ''X''))))) ''updated'' = None
   \<and> json_get (body (fst (app sample_world (mk_request SalesShift (Some ''secret'') (Some ''X''))))) ''rows''
       = Some (JList [sales_row_json (''A'', 15), sales_row_json (''B'', 7)])
   \<and> json_get (sales_row_json (''A'', 15)) ''category'' = None
   \<and> json_get (sales_row_json (''A'', 15)) ''page'' = Some (JStr ''A'')"
  unfolding sample_sales_shift
  by (simp add: json_get_def sales_row_json_def)

end
